theory Spec2Isabelle
  imports Main "HOL-Library.AList"
begin

section \<open>The bulk export script \<^verbatim>\<open>data_dump.py\<close>\<close>

text \<open>
  The script dumps a vault table to a CSV file through a paginated HTTP API and, on
  request, dumps the tokens of the same records to a second CSV file.  It is modelled
  as a sequential program over an explicit \<open>world\<close>: the HTTP attempts issued, the
  sleeps, the error log, the console, the two temporary buffers and the output files.

  Conventions of the model.
  \<^item> The remote service is a parameter \<open>srv\<close>: the outcome of an HTTP attempt as a
    function of all attempts issued before it and of the request.
  \<^item> The chunks of one wave run one after the other in submission order; each chunk
    appends its rows as one block.  The thread pool's interleavings are not modelled.
  \<^item> A CSV file is its list of rows, a row its list of cells; quoting is not modelled.
  \<^item> A response body is parsed JSON of the shape the script reads: an optional
    \<open>records\<close> list whose entries have an optional \<open>fields\<close> object with string or
    integer values.
  \<^item> Credentials, the progress bar and elapsed times are left out.
\<close>

subsection \<open>Configuration (the command line parameters)\<close>

datatype redaction = DEFAULT | REDACTED | MASKED | PLAIN_TEXT

record config =
  VAULT_ID :: string
  VAULT_URL :: string
  REDACTION_LEVEL :: redaction
  TABLE_NAME :: string
  OUTPUT_CSV :: string
  OUTPUT_TOKEN_CSV :: "string option"
  MAX_PARALLEL_TASKS :: nat
  ROWS_PER_CHUNK :: int
  DUMP_TOKENS_ENABLED :: bool
  UNIQUE_ID_COLUMN :: "string option"
  ERROR_LOG_FILE :: string

text \<open>Python's truth value of an optional string argument: absent and empty are false.\<close>

definition truthy :: "string option \<Rightarrow> bool" where
  "truthy u = (case u of None \<Rightarrow> False | Some s \<Rightarrow> s \<noteq> [])"

subsection \<open>Requests, responses and the remote service\<close>

datatype http_method = GET | POST

datatype param = PStr string | PInt int

text \<open>
  A request is the method, the URL up to the question mark, the query parameters in
  the order the URL lists them, and the JSON payload of a POST (the query text).
\<close>

record request =
  meth :: http_method
  endpoint :: string
  query :: "(string \<times> param) list"
  payload :: "string option"

datatype jvalue = JString string | JNumber int

datatype jrecord = JRecord (fields: "(string \<times> jvalue) list option")

record response =
  status_code :: int
  body_text :: string
  records :: "jrecord list option"

datatype outcome = Raises string | Responds response

type_synonym server = "request list \<Rightarrow> request \<Rightarrow> outcome"

datatype failure = RequestException string | HTTPError response

datatype exn = ValueError "string list" | KeyError string | IndexError | TypeError

subsection \<open>Messages written to the error log and printed\<close>

datatype message =
    ApiCallFailed nat failure
  | ErrorAtOffset int string
  | ErrorForIds "string list" string
  | FailedRecordCount string
  | FailedRetrieveData string
  | NoRecordsFound
  | UniqueColumnNotFound
  | TotalRecordsToRetrieve jvalue
  | FieldnamesForCSV "string list"
  | DataDumpCompleted int
  | TotalTimeTaken
  | TotalIdsToTokenize nat
  | TokenizationCompleted int
  | TotalTimeTokenization

datatype task = ScanChunk int | TokenChunk "string list"

type_synonym csv = "string list list"

record world =
  sent :: "request list"
  slept :: "nat list"
  submitted :: "task list"
  error_log :: "message list"
  console :: "message list"
  temp_output :: "csv option"
  temp_output_token :: "csv option"
  files :: "(string \<times> csv) list"

definition log_error :: "message \<Rightarrow> world \<Rightarrow> world" where
  "log_error m w = w\<lparr>error_log := error_log w @ [m]\<rparr>"

definition print :: "message \<Rightarrow> world \<Rightarrow> world" where
  "print m w = w\<lparr>console := console w @ [m]\<rparr>"

subsection \<open>\<^verbatim>\<open>make_api_call\<close>\<close>

definition retries :: nat where
  "retries = 3"

text \<open>
  \<^verbatim>\<open>response.raise_for_status()\<close> raises for the status codes 400 to 599; a transport
  error raises before there is a response.  Both are \<^verbatim>\<open>RequestException\<close>s.
\<close>

definition raise_for_status :: "response \<Rightarrow> failure + response" where
  "raise_for_status r =
     (if 400 \<le> status_code r \<and> status_code r < 600 then Inl (HTTPError r) else Inr r)"

definition attempt_result :: "outcome \<Rightarrow> failure + response" where
  "attempt_result out =
     (case out of Raises e \<Rightarrow> Inl (RequestException e) | Responds r \<Rightarrow> raise_for_status r)"

text \<open>The loop \<^verbatim>\<open>for attempt in range(retries)\<close>, over the attempts still to make.\<close>

fun attempts :: "server \<Rightarrow> request \<Rightarrow> nat list \<Rightarrow> world \<Rightarrow> response option \<times> world" where
  "attempts srv rq [] w = (None, w)"
| "attempts srv rq (attempt # rest) w =
     (let w1 = w\<lparr>sent := sent w @ [rq]\<rparr> in
      case attempt_result (srv (sent w) rq) of
        Inr r \<Rightarrow> (Some r, w1)
      | Inl e \<Rightarrow>
          if attempt < retries - 1
          then attempts srv rq rest (w1\<lparr>slept := slept w1 @ [2 ^ attempt]\<rparr>)
          else (None, log_error (ApiCallFailed retries e) w1))"

definition make_api_call :: "server \<Rightarrow> request \<Rightarrow> world \<Rightarrow> response option \<times> world" where
  "make_api_call srv rq w = attempts srv rq [0..<retries] w"

subsection \<open>Requests the script builds\<close>

definition redaction_name :: "redaction \<Rightarrow> string" where
  "redaction_name r =
     (case r of DEFAULT \<Rightarrow> ''DEFAULT'' | REDACTED \<Rightarrow> ''REDACTED''
      | MASKED \<Rightarrow> ''MASKED'' | PLAIN_TEXT \<Rightarrow> ''PLAIN_TEXT'')"

definition table_endpoint :: "config \<Rightarrow> string" where
  "table_endpoint cfg =
     ''https://'' @ VAULT_URL cfg @ ''/v1/vaults/'' @ VAULT_ID cfg @ ''/'' @ TABLE_NAME cfg"

text \<open>Line 85 (and line 160 with offset 0): the URL of a scan chunk.\<close>

definition scan_request :: "config \<Rightarrow> int \<Rightarrow> request" where
  "scan_request cfg offset =
     \<lparr>meth = GET, endpoint = table_endpoint cfg,
      query = [(''redaction'', PStr (redaction_name (REDACTION_LEVEL cfg))),
               (''offset'', PInt offset),
               (''order_by'', PStr ''ASCENDING'')],
      payload = None\<rparr>"

text \<open>Lines 105 to 107: the URL of a token chunk, extended once per identifier.\<close>

definition token_request :: "config \<Rightarrow> string list \<Rightarrow> request" where
  "token_request cfg skyflow_ids =
     \<lparr>meth = GET, endpoint = table_endpoint cfg,
      query = foldl (\<lambda>q skyflow_id. q @ [(''skyflow_ids'', PStr skyflow_id)])
                [(''tokenization'', PStr ''true'')] skyflow_ids,
      payload = None\<rparr>"

definition count_request :: "config \<Rightarrow> request" where
  "count_request cfg =
     \<lparr>meth = POST,
      endpoint = ''https://'' @ VAULT_URL cfg @ ''/v1/vaults/'' @ VAULT_ID cfg @ ''/query'',
      query = [],
      payload = Some (''select count(*) from '' @ TABLE_NAME cfg)\<rparr>"

subsection \<open>Reading a response\<close>

text \<open>The truth value of a response object is \<^verbatim>\<open>response.ok\<close>.\<close>

definition ok :: "response \<Rightarrow> bool" where
  "ok r = (\<not> (400 \<le> status_code r \<and> status_code r < 600))"

definition succeeded :: "response option \<Rightarrow> bool" where
  "succeeded response =
     (case response of None \<Rightarrow> False | Some r \<Rightarrow> ok r \<and> status_code r = 200)"

definition response_text :: "response option \<Rightarrow> string" where
  "response_text response =
     (case response of
        None \<Rightarrow> ''No response''
      | Some r \<Rightarrow> if ok r then body_text r else ''No response'')"

definition get_records :: "response option \<Rightarrow> jrecord list" where
  "get_records response =
     (case response of
        None \<Rightarrow> []
      | Some r \<Rightarrow> (case records r of None \<Rightarrow> [] | Some rs \<Rightarrow> rs))"

subsection \<open>CSV rows\<close>

fun str_nat :: "nat \<Rightarrow> string" where
  "str_nat n =
     (if n < 10 then [''0123456789'' ! n]
      else str_nat (n div 10) @ [''0123456789'' ! (n mod 10)])"

definition str_int :: "int \<Rightarrow> string" where
  "str_int i = (if i < 0 then CHR ''-'' # str_nat (nat (- i)) else str_nat (nat i))"

definition cell :: "jvalue \<Rightarrow> string" where
  "cell v = (case v of JString s \<Rightarrow> s | JNumber i \<Rightarrow> str_int i)"

text \<open>
  A Python dict is an association list with distinct keys in insertion order;
  \<open>py_dict\<close> builds one from pairs, a later pair replacing the value of an earlier
  one with the same key.
\<close>

definition py_dict :: "('k \<times> 'v) list \<Rightarrow> ('k \<times> 'v) list" where
  "py_dict kvs = foldl (\<lambda>d (k, v). AList.update k v d) [] kvs"

definition dict_get :: "(string \<times> string) list \<Rightarrow> string \<Rightarrow> string \<Rightarrow> string" where
  "dict_get d k dflt = (case map_of d k of None \<Rightarrow> dflt | Some v \<Rightarrow> v)"

text \<open>
  \<^verbatim>\<open>csv.DictWriter(f, fieldnames).writerow(row)\<close>: a key outside \<open>fieldnames\<close> raises
  \<^verbatim>\<open>ValueError\<close>, a field name missing from the row is written as the empty string.
\<close>

definition writerow :: "string list \<Rightarrow> (string \<times> string) list \<Rightarrow> exn + string list" where
  "writerow fieldnames row =
     (let wrong_fields = [k \<leftarrow> map fst row. k \<notin> set fieldnames] in
      if wrong_fields \<noteq> [] then Inl (ValueError wrong_fields)
      else Inr (map (\<lambda>f. dict_get row f []) fieldnames))"

definition contents :: "csv option \<Rightarrow> csv" where
  "contents f = (case f of None \<Rightarrow> [] | Some rows \<Rightarrow> rows)"

subsection \<open>\<^verbatim>\<open>process_chunk\<close>\<close>

text \<open>
  Lines 93 to 95: each record's fields are copied into a row and written.  A record
  without \<open>fields\<close> raises \<^verbatim>\<open>KeyError\<close>; rows written before an exception stay in
  the file.
\<close>

fun write_records :: "string list \<Rightarrow> jrecord list \<Rightarrow> csv \<Rightarrow> exn option \<times> csv" where
  "write_records fieldnames [] buf = (None, buf)"
| "write_records fieldnames (record # rest) buf =
     (case jrecord.fields record of
        None \<Rightarrow> (Some (KeyError ''fields''), buf)
      | Some fs \<Rightarrow>
          (case writerow fieldnames (map (\<lambda>(key, value). (key, cell value)) fs) of
             Inl e \<Rightarrow> (Some e, buf)
           | Inr cells \<Rightarrow> write_records fieldnames rest (buf @ [cells])))"

definition process_chunk ::
  "config \<Rightarrow> server \<Rightarrow> int \<Rightarrow> string list \<Rightarrow> world \<Rightarrow> (exn + int) \<times> world" where
  "process_chunk cfg srv offset fieldnames w =
     (case make_api_call srv (scan_request cfg offset) w of
        (response, w1) \<Rightarrow>
          if succeeded response then
            (case write_records fieldnames (get_records response) (contents (temp_output w1)) of
               (Some e, buf) \<Rightarrow> (Inl e, w1\<lparr>temp_output := Some buf\<rparr>)
             | (None, buf) \<Rightarrow>
                 (Inr (int (length (get_records response))), w1\<lparr>temp_output := Some buf\<rparr>))
          else
            (let error_message = ErrorAtOffset offset (response_text response)
             in (Inr 0, print error_message (log_error error_message w1))))"

subsection \<open>\<^verbatim>\<open>process_token_chunk\<close>\<close>

text \<open>
  Lines 116 to 119: every record is projected onto \<open>fieldnames\<close>; a record without
  \<open>fields\<close> counts as one with no fields.
\<close>

definition token_row :: "string list \<Rightarrow> jrecord \<Rightarrow> (string \<times> string) list" where
  "token_row fieldnames record =
     (let fs = (case jrecord.fields record of None \<Rightarrow> [] | Some fs \<Rightarrow> fs)
      in py_dict (map (\<lambda>field. (field, case map_of fs field of None \<Rightarrow> [] | Some v \<Rightarrow> cell v))
                   fieldnames))"

fun write_token_records ::
  "string list \<Rightarrow> jrecord list \<Rightarrow> csv \<Rightarrow> exn option \<times> csv" where
  "write_token_records fieldnames [] buf = (None, buf)"
| "write_token_records fieldnames (record # rest) buf =
     (case writerow fieldnames (token_row fieldnames record) of
        Inl e \<Rightarrow> (Some e, buf)
      | Inr cells \<Rightarrow> write_token_records fieldnames rest (buf @ [cells]))"

definition process_token_chunk ::
  "config \<Rightarrow> server \<Rightarrow> string list \<Rightarrow> string list \<Rightarrow> world \<Rightarrow> (exn + int) \<times> world" where
  "process_token_chunk cfg srv skyflow_ids fieldnames w =
     (case make_api_call srv (token_request cfg skyflow_ids) w of
        (response, w1) \<Rightarrow>
          if succeeded response then
            (case write_token_records fieldnames (get_records response)
                    (contents (temp_output_token w1)) of
               (Some e, buf) \<Rightarrow> (Inl e, w1\<lparr>temp_output_token := Some buf\<rparr>)
             | (None, buf) \<Rightarrow>
                 (Inr (int (length (get_records response))),
                  w1\<lparr>temp_output_token := Some buf\<rparr>))
          else
            (let error_message = ErrorForIds skyflow_ids (response_text response)
             in (Inr 0, print error_message (log_error error_message w1))))"

subsection \<open>The scan phase (lines 201 to 216)\<close>

text \<open>
  One wave: the loop \<^verbatim>\<open>for i in range(MAX_PARALLEL_TASKS)\<close> that submits a chunk at the
  cursor and advances the cursor by \<^verbatim>\<open>ROWS_PER_CHUNK\<close>, stopping when the cursor has
  reached the total.  The third argument counts the iterations left.  The result is
  the list of the futures' results and the cursor after the wave.
\<close>

fun scan_wave ::
  "config \<Rightarrow> server \<Rightarrow> string list \<Rightarrow> int \<Rightarrow> nat \<Rightarrow> int \<Rightarrow> world
   \<Rightarrow> ((exn + int) list \<times> int) \<times> world" where
  "scan_wave cfg srv fieldnames total_records 0 offset w = (([], offset), w)"
| "scan_wave cfg srv fieldnames total_records (Suc i) offset w =
     (if offset \<ge> total_records then (([], offset), w)
      else
        (case process_chunk cfg srv offset fieldnames
                (w\<lparr>submitted := submitted w @ [ScanChunk offset]\<rparr>) of
           (result, w1) \<Rightarrow>
             (case scan_wave cfg srv fieldnames total_records i
                     (offset + ROWS_PER_CHUNK cfg) w1 of
                ((results, offset'), w2) \<Rightarrow> ((result # results, offset'), w2))))"

text \<open>
  The loop over the completed futures: \<^verbatim>\<open>future.result()\<close> returns the chunk's count
  or raises the exception the chunk raised.
\<close>

fun join_wave :: "(exn + int) list \<Rightarrow> int \<Rightarrow> exn + int" where
  "join_wave [] dumped = Inr dumped"
| "join_wave (Inl e # futures) dumped = Inl e"
| "join_wave (Inr retrieved # futures) dumped = join_wave futures (dumped + retrieved)"

partial_function (option) scan_loop ::
  "config \<Rightarrow> server \<Rightarrow> string list \<Rightarrow> int \<Rightarrow> int \<Rightarrow> int \<Rightarrow> world
   \<Rightarrow> ((exn + int \<times> int) \<times> world) option" where
  "scan_loop cfg srv fieldnames total_records offset total_records_dumped w =
     (if offset < total_records then
        (case scan_wave cfg srv fieldnames total_records (MAX_PARALLEL_TASKS cfg) offset w of
           ((futures, offset'), w') \<Rightarrow>
             (case join_wave futures total_records_dumped of
                Inl e \<Rightarrow> Some (Inl e, w')
              | Inr dumped' \<Rightarrow>
                  scan_loop cfg srv fieldnames total_records offset' dumped' w'))
      else Some (Inr (offset, total_records_dumped), w))"

subsection \<open>The token phase (lines 234 to 296)\<close>

text \<open>\<^verbatim>\<open>csv.DictReader\<close>: the first row names the columns of the rows after it.\<close>

definition DictReader :: "csv \<Rightarrow> (string \<times> string) list list" where
  "DictReader rows =
     (case rows of [] \<Rightarrow> [] | header # body \<Rightarrow> map (\<lambda>r. py_dict (zip header r)) body)"

definition subscript :: "(string \<times> 'v) list \<Rightarrow> string \<Rightarrow> exn + 'v" where
  "subscript d k = (case map_of d k of None \<Rightarrow> Inl (KeyError k) | Some v \<Rightarrow> Inr v)"

text \<open>Lines 240 to 243: the identifiers in file order and the map to the unique column.\<close>

fun read_ids ::
  "config \<Rightarrow> (string \<times> string) list list \<Rightarrow> string list \<Rightarrow> (string \<times> string) list
   \<Rightarrow> exn + string list \<times> (string \<times> string) list" where
  "read_ids cfg [] skyflow_ids additional_fields = Inr (skyflow_ids, additional_fields)"
| "read_ids cfg (row # rest) skyflow_ids additional_fields =
     (case subscript row ''skyflow_id'' of
        Inl e \<Rightarrow> Inl e
      | Inr sid \<Rightarrow>
          (case UNIQUE_ID_COLUMN cfg of
             None \<Rightarrow> read_ids cfg rest (skyflow_ids @ [sid]) additional_fields
           | Some u \<Rightarrow>
               if u = [] then read_ids cfg rest (skyflow_ids @ [sid]) additional_fields
               else
                 (case subscript row u of
                    Inl e \<Rightarrow> Inl e
                  | Inr v \<Rightarrow>
                      read_ids cfg rest (skyflow_ids @ [sid])
                        (AList.update sid v additional_fields))))"

text \<open>Python's \<^verbatim>\<open>xs[i:j]\<close>: a negative index counts from the end, both are clamped.\<close>

definition slice_index :: "nat \<Rightarrow> int \<Rightarrow> nat" where
  "slice_index n i = (if i < 0 then nat (max 0 (i + int n)) else min n (nat i))"

definition py_slice :: "'a list \<Rightarrow> int \<Rightarrow> int \<Rightarrow> 'a list" where
  "py_slice xs i j =
     (let a = slice_index (length xs) i; b = slice_index (length xs) j
      in take (b - a) (drop a xs))"

fun token_wave ::
  "config \<Rightarrow> server \<Rightarrow> string list \<Rightarrow> string list \<Rightarrow> nat \<Rightarrow> int \<Rightarrow> world
   \<Rightarrow> ((exn + int) list \<times> int) \<times> world" where
  "token_wave cfg srv fieldnames skyflow_ids 0 offset w = (([], offset), w)"
| "token_wave cfg srv fieldnames skyflow_ids (Suc i) offset w =
     (if offset \<ge> int (length skyflow_ids) then (([], offset), w)
      else
        (let end_index = min (offset + ROWS_PER_CHUNK cfg) (int (length skyflow_ids));
             batch = py_slice skyflow_ids offset end_index
         in case process_token_chunk cfg srv batch fieldnames
                   (w\<lparr>submitted := submitted w @ [TokenChunk batch]\<rparr>) of
              (result, w1) \<Rightarrow>
                (case token_wave cfg srv fieldnames skyflow_ids i
                        (offset + ROWS_PER_CHUNK cfg) w1 of
                   ((results, offset'), w2) \<Rightarrow> ((result # results, offset'), w2))))"

partial_function (option) token_loop ::
  "config \<Rightarrow> server \<Rightarrow> string list \<Rightarrow> string list \<Rightarrow> int \<Rightarrow> int \<Rightarrow> world
   \<Rightarrow> ((exn + int \<times> int) \<times> world) option" where
  "token_loop cfg srv fieldnames skyflow_ids offset total_tokens_dumped w =
     (if offset < int (length skyflow_ids) then
        (case token_wave cfg srv fieldnames skyflow_ids (MAX_PARALLEL_TASKS cfg) offset w of
           ((futures, offset'), w') \<Rightarrow>
             (case join_wave futures total_tokens_dumped of
                Inl e \<Rightarrow> Some (Inl e, w')
              | Inr dumped' \<Rightarrow>
                  token_loop cfg srv fieldnames skyflow_ids offset' dumped' w'))
      else Some (Inr (offset, total_tokens_dumped), w))"

text \<open>Lines 277 to 280: one row of the token buffer, merged with the map.\<close>

definition merge_row ::
  "config \<Rightarrow> (string \<times> string) list \<Rightarrow> (string \<times> string) list
   \<Rightarrow> exn + (string \<times> string) list" where
  "merge_row cfg additional_fields row =
     (case UNIQUE_ID_COLUMN cfg of
        None \<Rightarrow> Inr row
      | Some u \<Rightarrow>
          if u = [] then Inr row
          else
            (case subscript row ''skyflow_id'' of
               Inl e \<Rightarrow> Inl e
             | Inr sid \<Rightarrow>
                 (case map_of additional_fields sid of
                    None \<Rightarrow> Inr row
                  | Some v \<Rightarrow> Inr (AList.update u v row))))"

fun merge_rows ::
  "config \<Rightarrow> (string \<times> string) list \<Rightarrow> (string \<times> string) list list
   \<Rightarrow> exn + (string \<times> string) list list" where
  "merge_rows cfg additional_fields [] = Inr []"
| "merge_rows cfg additional_fields (row # rest) =
     (case merge_row cfg additional_fields row of
        Inl e \<Rightarrow> Inl e
      | Inr merged \<Rightarrow>
          (case merge_rows cfg additional_fields rest of
             Inl e \<Rightarrow> Inl e
           | Inr merged_data \<Rightarrow> Inr (merged # merged_data)))"

text \<open>Lines 283 to 287: the header, then one row per merged row.\<close>

fun write_rows :: "string list \<Rightarrow> (string \<times> string) list list \<Rightarrow> csv \<Rightarrow> exn option \<times> csv" where
  "write_rows fieldnames [] buf = (None, buf)"
| "write_rows fieldnames (row # rest) buf =
     (case writerow fieldnames row of
        Inl e \<Rightarrow> (Some e, buf)
      | Inr cells \<Rightarrow> write_rows fieldnames rest (buf @ [cells]))"

subsection \<open>The script from top to bottom\<close>

datatype outcome_of_run = Exit int | Uncaught exn

text \<open>Lines 138 to 151: the count query and the total it returns.\<close>

definition record_count :: "response option \<Rightarrow> exn + jvalue" where
  "record_count query_response =
     (case query_response of
        None \<Rightarrow> Inl TypeError
      | Some r \<Rightarrow>
          (case records r of
             None \<Rightarrow> Inl (KeyError ''records'')
           | Some [] \<Rightarrow> Inl IndexError
           | Some (first # _) \<Rightarrow>
               (case jrecord.fields first of
                  None \<Rightarrow> Inl (KeyError ''fields'')
                | Some fs \<Rightarrow> subscript fs ''count(*)'')))"

definition fatal :: "message \<Rightarrow> world \<Rightarrow> (outcome_of_run + 'a) \<times> world" where
  "fatal error_message w = (Inl (Exit 1), print error_message (log_error error_message w))"

definition count_stage :: "config \<Rightarrow> server \<Rightarrow> world \<Rightarrow> (outcome_of_run + jvalue) \<times> world" where
  "count_stage cfg srv w =
     (case make_api_call srv (count_request cfg) w of
        (query_response, w1) \<Rightarrow>
          if \<not> succeeded query_response
          then fatal (FailedRecordCount (response_text query_response)) w1
          else
            (case record_count query_response of
               Inl e \<Rightarrow> (Inl (Uncaught e), w1)
             | Inr total_records \<Rightarrow>
                 (Inr total_records, print (TotalRecordsToRetrieve total_records) w1)))"

text \<open>Lines 175 to 188: the column order.  \<open>None\<close> is the fatal case of line 179.\<close>

definition reorder_fieldnames :: "string option \<Rightarrow> string list \<Rightarrow> string list option" where
  "reorder_fieldnames unique_id_column fieldnames =
     (case unique_id_column of
        None \<Rightarrow> Some ([''skyflow_id''] @ [f \<leftarrow> fieldnames. f \<noteq> ''skyflow_id''])
      | Some u \<Rightarrow>
          if u = [] then Some ([''skyflow_id''] @ [f \<leftarrow> fieldnames. f \<noteq> ''skyflow_id''])
          else if u \<notin> set fieldnames then None
          else Some ([u, ''skyflow_id''] @ [f \<leftarrow> fieldnames. f \<notin> set [u, ''skyflow_id'']]))"

text \<open>
  Lines 154 to 195: the temporary file, the first batch, the column order and the
  header of the temporary file.
\<close>

definition schema_stage ::
  "config \<Rightarrow> server \<Rightarrow> world \<Rightarrow> (outcome_of_run + string list) \<times> world" where
  "schema_stage cfg srv w =
     (case make_api_call srv (scan_request cfg 0) (w\<lparr>temp_output := Some [[]]\<rparr>) of
        (initial_response, w1) \<Rightarrow>
          if \<not> succeeded initial_response
          then fatal (FailedRetrieveData (response_text initial_response)) w1
          else
            (case get_records initial_response of
               [] \<Rightarrow> fatal NoRecordsFound w1
             | first # _ \<Rightarrow>
                 (case jrecord.fields first of
                    None \<Rightarrow> (Inl (Uncaught (KeyError ''fields'')), w1)
                  | Some fs \<Rightarrow>
                      (case reorder_fieldnames (UNIQUE_ID_COLUMN cfg) (map fst fs) of
                         None \<Rightarrow> fatal UniqueColumnNotFound w1
                       | Some fieldnames \<Rightarrow>
                           (Inr fieldnames,
                            (print (FieldnamesForCSV fieldnames) w1)
                              \<lparr>temp_output := Some [fieldnames]\<rparr>)))))"

text \<open>Lines 219 to 231: the temporary file is copied to the output file and removed.\<close>

definition publish :: "config \<Rightarrow> int \<Rightarrow> world \<Rightarrow> world" where
  "publish cfg total_records_dumped w =
     print TotalTimeTaken
       (print (DataDumpCompleted total_records_dumped)
          (w\<lparr>files := AList.update (OUTPUT_CSV cfg) (contents (temp_output w)) (files w),
             temp_output := None\<rparr>))"

text \<open>
  Lines 200 to 231.  A total that is not a number cannot be compared with the cursor.
\<close>

definition scan_stage ::
  "config \<Rightarrow> server \<Rightarrow> string list \<Rightarrow> jvalue \<Rightarrow> world \<Rightarrow> ((outcome_of_run + int) \<times> world) option" where
  "scan_stage cfg srv fieldnames total_records w =
     (case total_records of
        JString _ \<Rightarrow> Some (Inl (Uncaught TypeError), w)
      | JNumber n \<Rightarrow>
          (case scan_loop cfg srv fieldnames n 0 0 w of
             None \<Rightarrow> None
           | Some (Inl e, w') \<Rightarrow> Some (Inl (Uncaught e), w')
           | Some (Inr (offset, total_records_dumped), w') \<Rightarrow>
               Some (Inr total_records_dumped, publish cfg total_records_dumped w')))"

text \<open>Lines 274 to 296: merge, write the token file, remove the buffer, report.\<close>

definition publish_tokens ::
  "config \<Rightarrow> string list \<Rightarrow> (string \<times> string) list \<Rightarrow> int \<Rightarrow> world \<Rightarrow> outcome_of_run \<times> world" where
  "publish_tokens cfg fieldnames additional_fields total_tokens_dumped w =
     (case merge_rows cfg additional_fields (DictReader (contents (temp_output_token w))) of
        Inl e \<Rightarrow> (Uncaught e, w)
      | Inr merged_data \<Rightarrow>
          (case OUTPUT_TOKEN_CSV cfg of
             None \<Rightarrow> (Uncaught TypeError, w)
           | Some path \<Rightarrow>
               (case write_rows fieldnames merged_data [fieldnames] of
                  (Some e, buf) \<Rightarrow> (Uncaught e, w\<lparr>files := AList.update path buf (files w)\<rparr>)
                | (None, buf) \<Rightarrow>
                    (Exit 0,
                     print TotalTimeTokenization
                       (print (TokenizationCompleted total_tokens_dumped)
                          (w\<lparr>files := AList.update path buf (files w),
                             temp_output_token := None\<rparr>))))))"

definition token_stage ::
  "config \<Rightarrow> server \<Rightarrow> string list \<Rightarrow> world \<Rightarrow> (outcome_of_run \<times> world) option" where
  "token_stage cfg srv fieldnames w =
     (case read_ids cfg (DictReader (contents (map_of (files w) (OUTPUT_CSV cfg)))) [] [] of
        Inl e \<Rightarrow> Some (Uncaught e, w)
      | Inr (skyflow_ids, additional_fields) \<Rightarrow>
          (case token_loop cfg srv fieldnames skyflow_ids 0 0
                  ((print (TotalIdsToTokenize (length skyflow_ids)) w)
                     \<lparr>temp_output_token := Some [fieldnames]\<rparr>) of
             None \<Rightarrow> None
           | Some (Inl e, w') \<Rightarrow> Some (Uncaught e, w')
           | Some (Inr (offset, total_tokens_dumped), w') \<Rightarrow>
               Some (publish_tokens cfg fieldnames additional_fields total_tokens_dumped w')))"

definition main :: "config \<Rightarrow> server \<Rightarrow> world \<Rightarrow> (outcome_of_run \<times> world) option" where
  "main cfg srv w =
     (case count_stage cfg srv w of
        (Inl t, w1) \<Rightarrow> Some (t, w1)
      | (Inr total_records, w1) \<Rightarrow>
          (case schema_stage cfg srv w1 of
             (Inl t, w2) \<Rightarrow> Some (t, w2)
           | (Inr fieldnames, w2) \<Rightarrow>
               (case scan_stage cfg srv fieldnames total_records w2 of
                  None \<Rightarrow> None
                | Some (Inl t, w3) \<Rightarrow> Some (t, w3)
                | Some (Inr total_records_dumped, w3) \<Rightarrow>
                    if DUMP_TOKENS_ENABLED cfg then token_stage cfg srv fieldnames w3
                    else Some (Exit 0, w3))))"

subsection \<open>Notions used to state the properties\<close>

text \<open>An attempt fails when it raises the exception that \<^verbatim>\<open>make_api_call\<close> catches.\<close>

definition attempt_fails :: "outcome \<Rightarrow> bool" where
  "attempt_fails out = (case attempt_result out of Inl _ \<Rightarrow> True | Inr _ \<Rightarrow> False)"

text \<open>
  The number of chunks from a cursor up to the total, for a positive chunk size, and
  their offsets: the cursor, the cursor plus the chunk size, and so on below the total.
\<close>

definition chunks_left :: "int \<Rightarrow> int \<Rightarrow> int \<Rightarrow> nat" where
  "chunks_left rows_per_chunk total_records offset =
     nat ((total_records - offset + rows_per_chunk - 1) div rows_per_chunk)"

definition chunk_offsets :: "int \<Rightarrow> int \<Rightarrow> int \<Rightarrow> int list" where
  "chunk_offsets rows_per_chunk total_records offset =
     map (\<lambda>i. offset + int i * rows_per_chunk)
       [0..<chunks_left rows_per_chunk total_records offset]"

text \<open>The offsets named by the chunk-level entries of an error log, in order.\<close>

definition chunk_error_offsets :: "message list \<Rightarrow> int list" where
  "chunk_error_offsets log =
     concat (map (\<lambda>m. case m of ErrorAtOffset offset _ \<Rightarrow> [offset] | _ \<Rightarrow> []) log)"

text \<open>An attempt delivers a page when it is answered with status 200.\<close>

definition delivers :: "outcome \<Rightarrow> bool" where
  "delivers out = (case out of Raises _ \<Rightarrow> False | Responds r \<Rightarrow> status_code r = 200)"

text \<open>
  The row of a record under a column order, and the records the row writer of the scan
  path accepts: those with fields, all of them among the columns.
\<close>

definition scan_row :: "string list \<Rightarrow> jrecord \<Rightarrow> string list" where
  "scan_row fieldnames record =
     map (\<lambda>f. case map_of (case jrecord.fields record of None \<Rightarrow> [] | Some fs \<Rightarrow> fs) f of
                 None \<Rightarrow> [] | Some v \<Rightarrow> cell v) fieldnames"

definition writable :: "string list \<Rightarrow> jrecord \<Rightarrow> bool" where
  "writable fieldnames record =
     (case jrecord.fields record of None \<Rightarrow> False | Some fs \<Rightarrow> list_all (\<lambda>k. k \<in> set fieldnames) (map fst fs))"

text \<open>
  An attempt raises \<^verbatim>\<open>requests.RequestException\<close> when the transport fails or the status
  is an HTTP error, 400 to 599; \<open>exception_of\<close> is the exception it then raises.
\<close>

definition raises_request_exception :: "outcome \<Rightarrow> bool" where
  "raises_request_exception out =
     (case out of Raises _ \<Rightarrow> True | Responds r \<Rightarrow> 400 \<le> status_code r \<and> status_code r < 600)"

definition exception_of :: "outcome \<Rightarrow> failure" where
  "exception_of out = (case out of Raises e \<Rightarrow> RequestException e | Responds r \<Rightarrow> HTTPError r)"

text \<open>
  The cell of a row in the column named \<open>f\<close> of a CSV file with the given header, a file
  all of whose rows have as many cells as the header, and the value the scan file holds
  in the unique identifier column \<open>u\<close> for an identifier: that of the last row with this
  identifier, if there is one.
\<close>

definition column_value :: "string list \<Rightarrow> string list \<Rightarrow> string \<Rightarrow> string" where
  "column_value header row f = (case map_of (zip header row) f of None \<Rightarrow> [] | Some v \<Rightarrow> v)"

definition rectangular :: "string list \<Rightarrow> csv \<Rightarrow> bool" where
  "rectangular header rows = list_all (\<lambda>row. length row = length header) rows"

definition scan_value :: "string \<Rightarrow> string list \<Rightarrow> csv \<Rightarrow> string \<Rightarrow> string option" where
  "scan_value u header rows sid =
     (let matching = [row \<leftarrow> rows. column_value header row ''skyflow_id'' = sid]
      in if matching = [] then None else Some (column_value header (last matching) u))"

text \<open>
  The row expected in the token file for a row of the token buffer: the row itself when
  the scan file has no row with its identifier, and otherwise the row with the cell of
  column \<open>u\<close> replaced by the value the scan file holds for its identifier.
\<close>

definition published_row :: "string \<Rightarrow> string list \<Rightarrow> csv \<Rightarrow> string list \<Rightarrow> string list" where
  "published_row u header scan_rows row =
     (case scan_value u header scan_rows (column_value header row ''skyflow_id'') of
        None \<Rightarrow> row
      | Some v \<Rightarrow> map (\<lambda>f. if f = u then v else column_value header row f) header)"

text \<open>
  The same row in terms of the map \<^verbatim>\<open>additional_fields\<close>, and the shape of the token
  buffer during the token loop: the header, then rows with as many cells as the header.
\<close>

definition joined_row ::
  "string \<Rightarrow> string list \<Rightarrow> (string \<times> string) list \<Rightarrow> string list \<Rightarrow> string list" where
  "joined_row u fns af row =
     (case map_of af (column_value fns row ''skyflow_id'') of
        None \<Rightarrow> row
      | Some v \<Rightarrow> map (\<lambda>f. if f = u then v else column_value fns row f) fns)"

definition token_buffer :: "string list \<Rightarrow> world \<Rightarrow> bool" where
  "token_buffer fns w =
     (case temp_output_token w of
        None \<Rightarrow> False
      | Some rows \<Rightarrow> rows \<noteq> [] \<and> hd rows = fns \<and> rectangular fns (tl rows))"


subsection \<open>Example runs\<close>

definition example_config :: config where
  "example_config =
     \<lparr>VAULT_ID = ''vault'', VAULT_URL = ''host'', REDACTION_LEVEL = PLAIN_TEXT,
      TABLE_NAME = ''persons'', OUTPUT_CSV = ''out.csv'', OUTPUT_TOKEN_CSV = None,
      MAX_PARALLEL_TASKS = 2, ROWS_PER_CHUNK = 2, DUMP_TOKENS_ENABLED = False,
      UNIQUE_ID_COLUMN = None, ERROR_LOG_FILE = ''error_log.txt''\<rparr>"

definition initial_world :: world where
  "initial_world =
     \<lparr>sent = [], slept = [], submitted = [], error_log = [], console = [],
      temp_output = None, temp_output_token = None, files = []\<rparr>"

definition example_response :: "jrecord list \<Rightarrow> response" where
  "example_response rs = \<lparr>status_code = 200, body_text = ''{}'', records = Some rs\<rparr>"

text \<open>A service that cannot be reached, and one that answers from the second attempt on.\<close>

definition unreachable_server :: server where
  "unreachable_server h rq = Raises ''connection refused''"

definition flaky_server :: server where
  "flaky_server h rq =
     (if h = [] then Raises ''connection reset'' else Responds (example_response []))"

text \<open>The example configuration with \<^verbatim>\<open>--rows_per_call 0\<close>.\<close>

definition zero_chunk_config :: config where
  "zero_chunk_config = example_config\<lparr>ROWS_PER_CHUNK := 0\<rparr>"

text \<open>The example configuration with \<^verbatim>\<open>--rows_per_call 50\<close>.\<close>

definition wide_chunk_config :: config where
  "wide_chunk_config = example_config\<lparr>ROWS_PER_CHUNK := 50\<rparr>"

text \<open>
  A service with a table of four records that serves the first page and cannot be
  reached for any other.
\<close>

definition example_records :: "jrecord list" where
  "example_records =
     [JRecord (Some [(''name'', JString ''Ada''), (''skyflow_id'', JString ''a'')]),
      JRecord (Some [(''name'', JString ''Bob''), (''skyflow_id'', JString ''b'')])]"

definition example_server :: server where
  "example_server h rq =
     (if meth rq = POST
      then Responds (example_response [JRecord (Some [(''count(*)'', JNumber 4)])])
      else if map_of (query rq) ''offset'' = Some (PInt 0)
      then Responds (example_response example_records)
      else Raises ''connection refused'')"

text \<open>The example configuration with \<^verbatim>\<open>--unique_id_column u\<close>.\<close>

definition unique_config :: "string \<Rightarrow> config" where
  "unique_config u = example_config\<lparr>UNIQUE_ID_COLUMN := Some u\<rparr>"

text \<open>
  A service that serves the pages at offsets 0 and 4 of a table of five records and
  cannot be reached for offset 2.
\<close>

definition example_page :: "int \<Rightarrow> response" where
  "example_page offset =
     (if offset = 0 then example_response example_records
      else example_response
             [JRecord (Some [(''name'', JString ''Eve''), (''skyflow_id'', JString ''e'')])])"

definition one_failure_server :: server where
  "one_failure_server h rq =
     (if map_of (query rq) ''offset'' = Some (PInt 2) then Raises ''connection refused''
      else case map_of (query rq) ''offset'' of
             Some (PInt offset) \<Rightarrow> Responds (example_page offset)
           | _ \<Rightarrow> Raises ''connection refused'')"

text \<open>
  A service that answers every request with status 500, and one whose pages hold a
  record with a field \<open>ssn\<close>.
\<close>

definition internal_error_server :: server where
  "internal_error_server h rq =
     Responds \<lparr>status_code = 500, body_text = ''Internal Server Error'', records = None\<rparr>"

definition extra_field_server :: server where
  "extra_field_server h rq =
     Responds (example_response
       [JRecord (Some [(''skyflow_id'', JString ''a''), (''name'', JString ''Ada''),
                       (''ssn'', JString ''078-05-1120'')])])"






text \<open>
  A token dump with the unique identifier column \<open>email\<close>: the scan file holds the
  identifiers \<open>a\<close>, \<open>b\<close>, \<open>c\<close> with the values \<open>X\<close>, \<open>Y\<close>, \<open>Z\<close>; the service returns the
  records of a chunk in another order, with the column \<open>email\<close> empty or tokenized, and
  a record \<open>z\<close> that the scan file does not hold.  The last state is the one at the end
  of the token loop.
\<close>

definition token_config :: config where
  "token_config =
     example_config\<lparr>OUTPUT_TOKEN_CSV := Some ''tokens.csv'', DUMP_TOKENS_ENABLED := True,
                     UNIQUE_ID_COLUMN := Some ''email''\<rparr>"

definition token_world :: world where
  "token_world =
     initial_world\<lparr>files := [(''out.csv'',
        [[''email'', ''skyflow_id''], [''X'', ''a''], [''Y'', ''b''], [''Z'', ''c'']])]\<rparr>"

definition token_server :: server where
  "token_server h rq =
     (if h = []
      then Responds (example_response
             [JRecord (Some [(''skyflow_id'', JString ''b'')]),
              JRecord (Some [(''skyflow_id'', JString ''a''), (''email'', JString ''tok-a'')])])
      else Responds (example_response
             [JRecord (Some [(''skyflow_id'', JString ''z''), (''email'', JString ''tok-z'')]),
              JRecord (Some [(''skyflow_id'', JString ''c'')])]))"

definition token_world_tokenized :: world where
  "token_world_tokenized =
     token_world
       \<lparr>sent := [token_request token_config [''a'', ''b''], token_request token_config [''c'']],
        submitted := [TokenChunk [''a'', ''b''], TokenChunk [''c'']],
        console := [TotalIdsToTokenize 3],
        temp_output_token := Some [[''email'', ''skyflow_id''], ['''', ''b''], [''tok-a'', ''a''],
                                   [''tok-z'', ''z''], ['''', ''c'']]\<rparr>"

section \<open>Properties\<close>

subsection \<open>The retrying requester\<close>

lemma make_api_call_unfold:
  "make_api_call srv rq w =
     (case attempt_result (srv (sent w) rq) of
        Inr r \<Rightarrow> (Some r, w\<lparr>sent := sent w @ [rq]\<rparr>)
      | Inl e1 \<Rightarrow>
          (case attempt_result (srv (sent w @ [rq]) rq) of
             Inr r \<Rightarrow> (Some r, w\<lparr>sent := sent w @ [rq, rq], slept := slept w @ [1]\<rparr>)
           | Inl e2 \<Rightarrow>
               (case attempt_result (srv (sent w @ [rq, rq]) rq) of
                  Inr r \<Rightarrow>
                    (Some r, w\<lparr>sent := sent w @ [rq, rq, rq], slept := slept w @ [1, 2]\<rparr>)
                | Inl e3 \<Rightarrow>
                    (None, w\<lparr>sent := sent w @ [rq, rq, rq], slept := slept w @ [1, 2],
                              error_log := error_log w @ [ApiCallFailed 3 e3]\<rparr>))))"
  by (simp add: make_api_call_def retries_def upt_rec log_error_def Let_def split: sum.splits)

lemma attempt_result_ok: "attempt_result out = Inr r \<Longrightarrow> ok r"
  by (auto simp: attempt_result_def raise_for_status_def ok_def split: outcome.splits if_splits)

lemma make_api_call_frame:
  assumes "make_api_call srv rq w = (resp, w')"
  shows "submitted w' = submitted w" "console w' = console w" "temp_output w' = temp_output w"
    "temp_output_token w' = temp_output_token w" "files w' = files w"
  using assms by (auto simp: make_api_call_unfold split: sum.splits)

lemma make_api_call_Some_ok: "make_api_call srv rq w = (Some r, w') \<Longrightarrow> ok r"
  by (auto simp: make_api_call_unfold split: sum.splits dest: attempt_result_ok)

lemma make_api_call_log:
  assumes "make_api_call srv rq w = (resp, w')"
  shows "(resp = None \<and> (\<exists>e. error_log w' = error_log w @ [ApiCallFailed 3 e]))
       \<or> (resp \<noteq> None \<and> error_log w' = error_log w)"
  using assms by (auto simp: make_api_call_unfold split: sum.splits)

text \<open>
  C4.  When the three attempts of a request all fail, each by a transport error or by an
  HTTP error status, \<^verbatim>\<open>make_api_call\<close> issues the request exactly three times, sleeps
  \<open>2 ^ 0\<close> after the first failure and \<open>2 ^ 1\<close> after the second, appends one entry with
  the exception of the last attempt to the error log and returns \<open>None\<close>; being a value of
  the function, the result is no exception.
\<close>

theorem retry_exhaustion:
  assumes "raises_request_exception (srv (sent w) rq)"
      and "raises_request_exception (srv (sent w @ [rq]) rq)"
      and "raises_request_exception (srv (sent w @ [rq, rq]) rq)"
  shows "make_api_call srv rq w =
           (None, w\<lparr>sent := sent w @ [rq, rq, rq],
                     slept := slept w @ [2 ^ 0, 2 ^ 1],
                     error_log := error_log w
                       @ [ApiCallFailed 3 (exception_of (srv (sent w @ [rq, rq]) rq))]\<rparr>)"
  using assms
  by (auto simp: raises_request_exception_def exception_of_def make_api_call_unfold
      attempt_result_def raise_for_status_def split: outcome.splits)

theorem retry_exhaustion_witness:
  "raises_request_exception (unreachable_server [] (count_request example_config)) \<and>
   make_api_call unreachable_server (count_request example_config) initial_world =
     (None, initial_world
        \<lparr>sent := [count_request example_config, count_request example_config,
                  count_request example_config],
         slept := [1, 2],
         error_log := [ApiCallFailed 3 (RequestException ''connection refused'')]\<rparr>) \<and>
   raises_request_exception (internal_error_server [] (scan_request example_config 0)) \<and>
   make_api_call internal_error_server (scan_request example_config 0) initial_world =
     (None, initial_world
        \<lparr>sent := [scan_request example_config 0, scan_request example_config 0,
                  scan_request example_config 0],
         slept := [1, 2],
         error_log := [ApiCallFailed 3 (HTTPError
            \<lparr>status_code = 500, body_text = ''Internal Server Error'', records = None\<rparr>)]\<rparr>)"
  using retry_exhaustion [of unreachable_server initial_world "count_request example_config"]
        retry_exhaustion [of internal_error_server initial_world "scan_request example_config 0"]
  by (simp add: raises_request_exception_def exception_of_def unreachable_server_def
      internal_error_server_def initial_world_def)

text \<open>
  C7, as the script has it.  The error log grows by exactly one entry when all three
  attempts fail, the entry of the last failure, and not at all otherwise: a failed
  attempt that is retried leaves no entry, and neither does a successful one.
\<close>

theorem error_log_only_on_exhaustion:
  "error_log (snd (make_api_call srv rq w)) =
     error_log w @
       (case attempt_result (srv (sent w @ [rq, rq]) rq) of
          Inl e \<Rightarrow>
            if attempt_fails (srv (sent w) rq) \<and> attempt_fails (srv (sent w @ [rq]) rq)
            then [ApiCallFailed 3 e] else []
        | Inr _ \<Rightarrow> [])"
  by (auto simp: attempt_fails_def make_api_call_unfold split: sum.splits)

theorem error_log_only_on_exhaustion_witness:
  "error_log (snd (make_api_call unreachable_server (scan_request example_config 0) initial_world))
     = [ApiCallFailed 3 (RequestException ''connection refused'')]"
  using error_log_only_on_exhaustion
          [of unreachable_server "scan_request example_config 0" initial_world]
  by (simp add: attempt_fails_def attempt_result_def unreachable_server_def initial_world_def)

text \<open>
  The first attempt against the flaky service fails and is retried; the call then
  succeeds, and the error log has no entry for the failed attempt.
\<close>

theorem retried_failure_not_logged:
  "attempt_fails (flaky_server (sent initial_world) (scan_request example_config 0)) \<and>
   fst (make_api_call flaky_server (scan_request example_config 0) initial_world)
     = Some (example_response []) \<and>
   error_log (snd (make_api_call flaky_server (scan_request example_config 0) initial_world))
     = []"
  by (simp add: make_api_call_unfold attempt_fails_def attempt_result_def flaky_server_def
      initial_world_def raise_for_status_def example_response_def)

subsection \<open>The scan schedule\<close>

lemma chunks_left_done: "1 \<le> rpc \<Longrightarrow> tot \<le> offset \<Longrightarrow> chunks_left rpc tot offset = 0"
proof -
  assume a: "1 \<le> rpc" "tot \<le> offset"
  have "(tot - offset + rpc - 1) div rpc \<le> (rpc - 1) div rpc"
    using a by (intro zdiv_mono1) auto
  moreover have "(rpc - 1) div rpc = 0" using a by simp
  ultimately show ?thesis by (simp add: chunks_left_def)
qed

lemma chunks_left_step:
  assumes "1 \<le> rpc" "offset < tot"
  shows "chunks_left rpc tot offset = Suc (chunks_left rpc tot (offset + rpc))"
proof -
  have e: "tot - offset + rpc - 1 = (tot - (offset + rpc) + rpc - 1) + 1 * rpc" by simp
  have "(tot - offset + rpc - 1) div rpc = (tot - (offset + rpc) + rpc - 1) div rpc + 1"
    unfolding e using assms(1) by (subst div_mult_self1) auto
  moreover have "0 \<le> (tot - (offset + rpc) + rpc - 1) div rpc"
    using assms by (simp add: pos_imp_zdiv_nonneg_iff)
  ultimately show ?thesis by (simp add: chunks_left_def nat_add_distrib)
qed

lemma chunks_left_iff:
  assumes "1 \<le> rpc" 
  shows "offset + int i * rpc < tot \<longleftrightarrow> i < chunks_left rpc tot offset"
proof (induction i arbitrary: offset)
  case 0
  show ?case
  proof (cases "offset < tot")
    case True then show ?thesis using chunks_left_step[OF assms True] by simp
  next
    case False then show ?thesis using chunks_left_done[OF assms, of tot offset] by simp
  qed
next
  case (Suc i)
  have e: "offset + int (Suc i) * rpc = (offset + rpc) + int i * rpc" by (simp add: algebra_simps)
  show ?case
  proof (cases "offset < tot")
    case True
    then show ?thesis using chunks_left_step[OF assms True] Suc[of "offset + rpc"] unfolding e by simp
  next
    case False
    have "0 \<le> int (Suc i) * rpc" using assms by simp
    with False have "\<not> offset + int (Suc i) * rpc < tot" by linarith
    then show ?thesis using chunks_left_done[OF assms, of tot offset] False by simp
  qed
qed

lemma chunk_offsets_done: "1 \<le> rpc \<Longrightarrow> tot \<le> offset \<Longrightarrow> chunk_offsets rpc tot offset = []"
  by (simp add: chunk_offsets_def chunks_left_done)

lemma chunk_offsets_step:
  assumes "1 \<le> rpc" "offset < tot"
  shows "chunk_offsets rpc tot offset = offset # chunk_offsets rpc tot (offset + rpc)"
  unfolding chunk_offsets_def chunks_left_step[OF assms]
  by (simp add: upt_rec[of 0] map_Suc_upt[symmetric] algebra_simps del: upt_Suc)

lemma process_chunk_submitted:
  "submitted (snd (process_chunk cfg srv offset fns w)) = submitted w"
proof -
  obtain resp w1 where m: "make_api_call srv (scan_request cfg offset) w = (resp, w1)"
    by (cases "make_api_call srv (scan_request cfg offset) w")
  show ?thesis
    using make_api_call_frame(1)[OF m]
    by (simp add: process_chunk_def m print_def log_error_def Let_def
        split: prod.splits option.splits)
qed

lemma scan_wave_submitted:
  assumes rpc: "1 \<le> ROWS_PER_CHUNK cfg"
  shows "scan_wave cfg srv fns tot m offset w = ((rs, offset'), w') \<Longrightarrow>
     submitted w' = submitted w @ map ScanChunk (take m (chunk_offsets (ROWS_PER_CHUNK cfg) tot offset)) \<and>
     offset' = offset + ROWS_PER_CHUNK cfg * int (length (take m (chunk_offsets (ROWS_PER_CHUNK cfg) tot offset))) \<and>
     chunk_offsets (ROWS_PER_CHUNK cfg) tot offset' = drop m (chunk_offsets (ROWS_PER_CHUNK cfg) tot offset)"
proof (induction m arbitrary: offset w rs offset' w')
  case 0
  then show ?case by simp
next
  case (Suc m)
  show ?case
  proof (cases "tot \<le> offset")
    case True
    with Suc.prems show ?thesis by (simp add: chunk_offsets_done[OF rpc])
  next
    case False
    obtain result w1 where pc: "process_chunk cfg srv offset fns
        (w\<lparr>submitted := submitted w @ [ScanChunk offset]\<rparr>) = (result, w1)"
      by (cases "process_chunk cfg srv offset fns (w\<lparr>submitted := submitted w @ [ScanChunk offset]\<rparr>)")
    obtain results o2 w2 where sw: "scan_wave cfg srv fns tot m (offset + ROWS_PER_CHUNK cfg) w1
        = ((results, o2), w2)"
      by (metis prod.exhaust)
    have s1: "submitted w1 = submitted w @ [ScanChunk offset]"
      using process_chunk_submitted[of cfg srv offset fns "w\<lparr>submitted := submitted w @ [ScanChunk offset]\<rparr>"]
      by (simp add: pc)
    from Suc.prems False pc sw have eq: "offset' = o2" "w' = w2" by auto
    have st: "chunk_offsets (ROWS_PER_CHUNK cfg) tot offset
        = offset # chunk_offsets (ROWS_PER_CHUNK cfg) tot (offset + ROWS_PER_CHUNK cfg)"
      using chunk_offsets_step[OF rpc] False by simp
    have
      A: "submitted w2 = submitted w1 @ map ScanChunk
            (take m (chunk_offsets (ROWS_PER_CHUNK cfg) tot (offset + ROWS_PER_CHUNK cfg)))" and
      B: "o2 = offset + ROWS_PER_CHUNK cfg + ROWS_PER_CHUNK cfg * int (length
            (take m (chunk_offsets (ROWS_PER_CHUNK cfg) tot (offset + ROWS_PER_CHUNK cfg))))" and
      C: "chunk_offsets (ROWS_PER_CHUNK cfg) tot o2
            = drop m (chunk_offsets (ROWS_PER_CHUNK cfg) tot (offset + ROWS_PER_CHUNK cfg))"
      using Suc.IH[OF sw] by blast+
    show ?thesis
      unfolding eq st
      apply (intro conjI)
      subgoal using A by (simp add: s1)
      subgoal using B by (simp add: algebra_simps del: length_take)
      subgoal using C by simp
      done
  qed
qed

lemma take_length_take: "take (length (take m xs)) xs = take m xs"
  by (cases "m \<le> length xs") (simp_all add: min_def)

lemma scan_loop_submitted:
  assumes rpc: "1 \<le> ROWS_PER_CHUNK cfg" and mt: "1 \<le> MAX_PARALLEL_TASKS cfg"
  shows "\<exists>res w' k. scan_loop cfg srv fns tot offset dumped w = Some (res, w') \<and>
      k \<le> length (chunk_offsets (ROWS_PER_CHUNK cfg) tot offset) \<and>
      submitted w' = submitted w @ map ScanChunk (take k (chunk_offsets (ROWS_PER_CHUNK cfg) tot offset)) \<and>
      (\<forall>off d. res = Inr (off, d) \<longrightarrow>
          k = length (chunk_offsets (ROWS_PER_CHUNK cfg) tot offset) \<and>
          off = offset + ROWS_PER_CHUNK cfg * int (length (chunk_offsets (ROWS_PER_CHUNK cfg) tot offset)))"
proof (induction "length (chunk_offsets (ROWS_PER_CHUNK cfg) tot offset)"
    arbitrary: offset dumped w rule: less_induct)
  case less
  let ?offs = "chunk_offsets (ROWS_PER_CHUNK cfg) tot offset"
  show ?case
  proof (cases "offset < tot")
    case False
    then have "scan_loop cfg srv fns tot offset dumped w = Some (Inr (offset, dumped), w)"
      by (subst scan_loop.simps) simp
    moreover have "?offs = []" using False chunk_offsets_done[OF rpc] by simp
    ultimately show ?thesis by simp
  next
    case True
    obtain futs o1 w1 where sw: "scan_wave cfg srv fns tot (MAX_PARALLEL_TASKS cfg) offset w
        = ((futs, o1), w1)"
      by (metis prod.exhaust)
    have W: "submitted w1 = submitted w @ map ScanChunk (take (MAX_PARALLEL_TASKS cfg) (chunk_offsets (ROWS_PER_CHUNK cfg) tot offset))"
      "o1 = offset + ROWS_PER_CHUNK cfg * int (length (take (MAX_PARALLEL_TASKS cfg) (chunk_offsets (ROWS_PER_CHUNK cfg) tot offset)))"
      "chunk_offsets (ROWS_PER_CHUNK cfg) tot o1 = drop (MAX_PARALLEL_TASKS cfg) (chunk_offsets (ROWS_PER_CHUNK cfg) tot offset)"
      using scan_wave_submitted[OF rpc sw] by blast+
    let ?m = "MAX_PARALLEL_TASKS cfg"
    have ne: "?offs \<noteq> []" using chunk_offsets_step[OF rpc True] by simp
    show ?thesis
    proof (cases "join_wave futs dumped")
      case (Inl e)
      have "scan_loop cfg srv fns tot offset dumped w = Some (Inl e, w1)"
        by (subst scan_loop.simps) (simp add: True sw Inl)
      moreover have "length (take ?m ?offs) \<le> length ?offs" by simp
      ultimately show ?thesis using W(1)
        by (intro exI[of _ "Inl e"] exI[of _ w1] exI[of _ "length (take ?m ?offs)"])
           (simp add: take_length_take del: length_take)
    next
      case (Inr d')
      have step: "scan_loop cfg srv fns tot offset dumped w = scan_loop cfg srv fns tot o1 d' w1"
        by (subst scan_loop.simps) (simp add: True sw Inr)
      have lt: "length (chunk_offsets (ROWS_PER_CHUNK cfg) tot o1) < length ?offs"
        using W(3) ne mt by (cases ?offs) auto
      from less[OF lt, of d' w1] obtain res w' k where
        IH: "scan_loop cfg srv fns tot o1 d' w1 = Some (res, w')"
          "k \<le> length (drop ?m ?offs)"
          "submitted w' = submitted w1 @ map ScanChunk (take k (drop ?m ?offs))"
          "\<forall>off d. res = Inr (off, d) \<longrightarrow> k = length (drop ?m ?offs) \<and>
              off = o1 + ROWS_PER_CHUNK cfg * int (length (drop ?m ?offs))"
        unfolding W(3) by blast
      have tk: "take (length (take ?m ?offs) + k) ?offs = take ?m ?offs @ take k (drop ?m ?offs)"
        by (cases "?m \<le> length ?offs") (simp_all add: take_add min_def)
      have len: "length (take ?m ?offs) + length (drop ?m ?offs) = length ?offs"
        by simp
      have k: "length (take ?m ?offs) + k \<le> length ?offs"
        using IH(2) len by linarith
      have sub: "submitted w' = submitted w @ map ScanChunk (take (length (take ?m ?offs) + k) ?offs)"
        unfolding tk using IH(3) W(1) by simp
      have fin: "\<forall>off d. res = Inr (off, d) \<longrightarrow>
          length (take ?m ?offs) + k = length ?offs \<and>
          off = offset + ROWS_PER_CHUNK cfg * int (length ?offs)"
      proof (intro allI impI)
        fix off d assume "res = Inr (off, d)"
        with IH(4) have kk: "k = length (drop ?m ?offs)"
          and oo: "off = o1 + ROWS_PER_CHUNK cfg * int (length (drop ?m ?offs))" by auto
        have o1: "o1 = offset + ROWS_PER_CHUNK cfg * int (length (take ?m ?offs))" using W(2) by simp
        have "int (length ?offs) = int (length (take ?m ?offs)) + int (length (drop ?m ?offs))"
          using len by linarith
        then have "off = offset + ROWS_PER_CHUNK cfg * int (length ?offs)"
          unfolding oo o1 by (simp only: distrib_left) 
        then show "length (take ?m ?offs) + k = length ?offs \<and>
          off = offset + ROWS_PER_CHUNK cfg * int (length ?offs)"
          using kk len by simp
      qed
      show ?thesis
        using step IH(1) k sub fin by (intro exI[of _ res] exI[of _ w'] exI[of _ "length (take ?m ?offs) + k"]) simp
    qed
  qed
qed

lemma take_chunk_offsets:
  assumes "k \<le> chunks_left rpc tot 0"
  shows "take k (chunk_offsets rpc tot 0) = map (\<lambda>i. int i * rpc) [0..<k]"
  using assms by (simp add: chunk_offsets_def take_map min_def)

subsection \<open>Requests and column order\<close>

lemma token_request_query:
  "query (token_request cfg ids) = (''tokenization'', PStr ''true'') # map (\<lambda>i. (''skyflow_ids'', PStr i)) ids"
proof -
  have "foldl (\<lambda>q i. q @ [(''skyflow_ids'', PStr i)]) q0 ids = q0 @ map (\<lambda>i. (''skyflow_ids'', PStr i)) ids" for q0
    by (induction ids arbitrary: q0) auto
  then show ?thesis by (simp add: token_request_def)
qed

text \<open>
  C9 at \<^verbatim>\<open>--rows_per_call 50\<close>.  The scan request carries the redaction level, the offset
  and the ascending order; it has no \<open>limit\<close> parameter, and it is the request the
  default configuration sends: the rows per chunk do not reach the service.
\<close>

theorem scan_request_without_limit:
  "query (scan_request wide_chunk_config 0) =
     [(''redaction'', PStr ''PLAIN_TEXT''), (''offset'', PInt 0), (''order_by'', PStr ''ASCENDING'')] \<and>
   map_of (query (scan_request wide_chunk_config 0)) ''limit'' = None \<and>
   scan_request wide_chunk_config 0 = scan_request example_config 0"
  by (simp add: scan_request_def wide_chunk_config_def example_config_def redaction_name_def
      table_endpoint_def)

lemma map_fst_mem: "(u \<in> set (map fst fs)) = (u \<in> fst ` set fs)" by simp

text \<open>
  C3.  Let the first batch be answered with status 200 and a first record with fields
  \<open>fs\<close>.  With a unique column among the keys, the column order has the unique column at
  position 0 and \<open>skyflow_id\<close> at position 1; with no unique column it has \<open>skyflow_id\<close> at
  position 0; the columns after these are the other keys in their order.  With a unique
  column that is not a key, the stage is fatal, and the run ends with exit status 1 in
  the world the first batch left, extended by the message only: no chunk is fetched.
\<close>

theorem column_order:
  assumes probe: "make_api_call srv (scan_request cfg 0) (w\<lparr>temp_output := Some [[]]\<rparr>) = (Some r, w1)"
      and status: "status_code r = 200"
      and first: "records r = Some (JRecord (Some fs) # others)"
  shows "(\<forall>u. UNIQUE_ID_COLUMN cfg = Some u \<and> u \<noteq> [] \<and> u \<in> set (map fst fs) \<longrightarrow>
            (\<exists>fieldnames w2. schema_stage cfg srv w = (Inr fieldnames, w2) \<and>
               fieldnames ! 0 = u \<and> fieldnames ! 1 = ''skyflow_id'' \<and>
               drop 2 fieldnames = [f \<leftarrow> map fst fs. f \<noteq> u \<and> f \<noteq> ''skyflow_id''])) \<and>
         (\<not> truthy (UNIQUE_ID_COLUMN cfg) \<longrightarrow>
            (\<exists>fieldnames w2. schema_stage cfg srv w = (Inr fieldnames, w2) \<and>
               fieldnames ! 0 = ''skyflow_id'' \<and>
               drop 1 fieldnames = [f \<leftarrow> map fst fs. f \<noteq> ''skyflow_id''])) \<and>
         (\<forall>u. UNIQUE_ID_COLUMN cfg = Some u \<and> u \<noteq> [] \<and> u \<notin> set (map fst fs) \<longrightarrow>
            schema_stage cfg srv w
              = (Inl (Exit 1), print UniqueColumnNotFound (log_error UniqueColumnNotFound w1)) \<and>
            (\<forall>w0 total_records. count_stage cfg srv w0 = (Inr total_records, w) \<longrightarrow>
               main cfg srv w0
                 = Some (Exit 1, print UniqueColumnNotFound (log_error UniqueColumnNotFound w1))))"
proof -
  have ok: "ok r" using make_api_call_Some_ok[OF probe] .
  have s: "succeeded (Some r)" using ok status by (simp add: succeeded_def)
  have g: "get_records (Some r) = JRecord (Some fs) # others" using first by (simp add: get_records_def)
  have st: "schema_stage cfg srv w =
      (case reorder_fieldnames (UNIQUE_ID_COLUMN cfg) (map fst fs) of
         None \<Rightarrow> fatal UniqueColumnNotFound w1
       | Some fieldnames \<Rightarrow> (Inr fieldnames,
            (print (FieldnamesForCSV fieldnames) w1)\<lparr>temp_output := Some [fieldnames]\<rparr>))"
    by (simp add: schema_stage_def probe s g)
  have a: "\<forall>u. UNIQUE_ID_COLUMN cfg = Some u \<and> u \<noteq> [] \<and> u \<in> set (map fst fs) \<longrightarrow>
            (\<exists>fieldnames w2. schema_stage cfg srv w = (Inr fieldnames, w2) \<and>
               fieldnames ! 0 = u \<and> fieldnames ! 1 = ''skyflow_id'' \<and>
               drop 2 fieldnames = [f \<leftarrow> map fst fs. f \<noteq> u \<and> f \<noteq> ''skyflow_id''])"
    unfolding st by (auto simp: reorder_fieldnames_def)
  have b: "\<not> truthy (UNIQUE_ID_COLUMN cfg) \<longrightarrow>
            (\<exists>fieldnames w2. schema_stage cfg srv w = (Inr fieldnames, w2) \<and>
               fieldnames ! 0 = ''skyflow_id'' \<and>
               drop 1 fieldnames = [f \<leftarrow> map fst fs. f \<noteq> ''skyflow_id''])"
    unfolding st by (auto simp: reorder_fieldnames_def truthy_def split: option.splits)
  have c: "\<forall>u. UNIQUE_ID_COLUMN cfg = Some u \<and> u \<noteq> [] \<and> u \<notin> set (map fst fs) \<longrightarrow>
            schema_stage cfg srv w
              = (Inl (Exit 1), print UniqueColumnNotFound (log_error UniqueColumnNotFound w1)) \<and>
            (\<forall>w0 total_records. count_stage cfg srv w0 = (Inr total_records, w) \<longrightarrow>
               main cfg srv w0
                 = Some (Exit 1, print UniqueColumnNotFound (log_error UniqueColumnNotFound w1)))"
  proof (intro allI impI)
    fix u assume u: "UNIQUE_ID_COLUMN cfg = Some u \<and> u \<noteq> [] \<and> u \<notin> set (map fst fs)"
    then have r: "reorder_fieldnames (UNIQUE_ID_COLUMN cfg) (map fst fs) = None"
      by (simp add: reorder_fieldnames_def)
    have e: "schema_stage cfg srv w
        = (Inl (Exit 1), print UniqueColumnNotFound (log_error UniqueColumnNotFound w1))"
      unfolding st r by (simp add: fatal_def)
    show "schema_stage cfg srv w
        = (Inl (Exit 1), print UniqueColumnNotFound (log_error UniqueColumnNotFound w1)) \<and>
      (\<forall>w0 total_records. count_stage cfg srv w0 = (Inr total_records, w) \<longrightarrow>
         main cfg srv w0
           = Some (Exit 1, print UniqueColumnNotFound (log_error UniqueColumnNotFound w1)))"
      using e by (simp add: main_def)
  qed
  from a b c show ?thesis by blast
qed

subsection \<open>One chunk of the scan\<close>

lemma write_records_writable:
  "list_all (writable fns) recs \<Longrightarrow> write_records fns recs buf = (None, buf @ map (scan_row fns) recs)"
proof (induction recs arbitrary: buf)
  case Nil
  then show ?case by simp
next
  case (Cons a recs)
  from Cons.prems obtain fs where fs: "jrecord.fields a = Some fs" "\<forall>k \<in> fst ` set fs. k \<in> set fns"
    by (auto simp: writable_def list_all_iff split: option.splits)
  have w: "writerow fns (map (\<lambda>(key, value). (key, cell value)) fs) = Inr (scan_row fns a)"
    using fs by (auto simp: writerow_def scan_row_def dict_get_def filter_empty_conv map_of_map
        split: option.splits intro!: arg_cong[where f="\<lambda>x. case x of None \<Rightarrow> _ | Some v \<Rightarrow> _ v"])
  show ?case using Cons fs w by simp
qed

theorem column_order_witness:
  "(\<exists>fieldnames w2. schema_stage (unique_config ''name'') example_server initial_world
       = (Inr fieldnames, w2) \<and>
     fieldnames ! 0 = ''name'' \<and> fieldnames ! 1 = ''skyflow_id'' \<and> drop 2 fieldnames = []) \<and>
   (\<exists>fieldnames w2. schema_stage example_config example_server initial_world
       = (Inr fieldnames, w2) \<and>
     fieldnames ! 0 = ''skyflow_id'' \<and> drop 1 fieldnames = [''name'']) \<and>
   schema_stage (unique_config ''email'') example_server initial_world
     = (Inl (Exit 1),
        print UniqueColumnNotFound (log_error UniqueColumnNotFound
          (initial_world\<lparr>temp_output := Some [[]],
                          sent := [scan_request (unique_config ''email'') 0]\<rparr>)))"
proof -
  have p: "make_api_call example_server (scan_request cfg 0)
             (initial_world\<lparr>temp_output := Some [[]]\<rparr>)
           = (Some (example_response example_records),
              initial_world\<lparr>temp_output := Some [[]], sent := [scan_request cfg 0]\<rparr>)" for cfg
    by (simp add: make_api_call_unfold example_server_def scan_request_def attempt_result_def
        raise_for_status_def example_response_def initial_world_def)
  have s: "status_code (example_response example_records) = 200"
    by (simp add: example_response_def)
  have r: "records (example_response example_records)
        = Some (JRecord (Some [(''name'', JString ''Ada''), (''skyflow_id'', JString ''a'')])
                # [JRecord (Some [(''name'', JString ''Bob''), (''skyflow_id'', JString ''b'')])])"
    by (simp add: example_response_def example_records_def)
  have u: "UNIQUE_ID_COLUMN (unique_config c) = Some c" for c
    by (simp add: unique_config_def)
  have n: "\<not> truthy (UNIQUE_ID_COLUMN example_config)"
    by (simp add: example_config_def truthy_def)
  show ?thesis
    using column_order [OF p s r, of "unique_config ''name''"]
          column_order [OF p s r, of example_config]
          column_order [OF p s r, of "unique_config ''email''"]
    by (simp add: u n)
qed

lemma process_chunk_delivered:
  assumes srv: "\<And>h. srv h (scan_request cfg offset) = Responds r"
      and status: "status_code r = 200"
      and wr: "list_all (writable fns) (get_records (Some r))"
  shows "process_chunk cfg srv offset fns w =
           (Inr (int (length (get_records (Some r)))),
            w\<lparr>sent := sent w @ [scan_request cfg offset],
              temp_output := Some (contents (temp_output w) @ map (scan_row fns) (get_records (Some r)))\<rparr>)"
proof -
  have a: "attempt_result (Responds r) = Inr r"
    using status by (simp add: attempt_result_def raise_for_status_def)
  have m: "make_api_call srv (scan_request cfg offset) w
      = (Some r, w\<lparr>sent := sent w @ [scan_request cfg offset]\<rparr>)"
    by (simp add: make_api_call_unfold srv a)
  have s: "succeeded (Some r)" using status by (simp add: succeeded_def ok_def)
  show ?thesis
    by (simp add: process_chunk_def m s write_records_writable[OF wr])
qed

lemma chunk_error_offsets_append [simp]:
  "chunk_error_offsets (xs @ ys) = chunk_error_offsets xs @ chunk_error_offsets ys"
  by (simp add: chunk_error_offsets_def)

lemma process_chunk_undelivered:
  assumes srv: "\<And>h. \<not> delivers (srv h (scan_request cfg offset))"
  shows "\<exists>w'. process_chunk cfg srv offset fns w = (Inr 0, w') \<and>
           temp_output w' = temp_output w \<and>
           chunk_error_offsets (error_log w') = chunk_error_offsets (error_log w) @ [offset]"
proof -
  obtain resp w1 where m: "make_api_call srv (scan_request cfg offset) w = (resp, w1)"
    by (cases "make_api_call srv (scan_request cfg offset) w")
  have nd: "attempt_result (srv h (scan_request cfg offset)) = Inr r \<Longrightarrow> status_code r \<noteq> 200" for h r
    using srv[of h]
    by (auto simp: delivers_def attempt_result_def raise_for_status_def split: outcome.splits if_splits)
  have ns: "\<not> succeeded resp"
    using m nd by (auto simp: make_api_call_unfold succeeded_def split: sum.splits)
  have l: "chunk_error_offsets (error_log w1) = chunk_error_offsets (error_log w)"
    using make_api_call_log[OF m] by (auto simp: chunk_error_offsets_def)
  show ?thesis
    using make_api_call_frame(3)[OF m] l
    by (simp add: process_chunk_def m ns print_def log_error_def Let_def chunk_error_offsets_def)
qed

subsection \<open>The scan loop as a sequence of chunks\<close>

lemma join_wave_counts: "join_wave (map Inr cs) d = Inr (d + sum_list cs)"
  by (induction cs arbitrary: d) (simp_all add: algebra_simps)

lemma scan_wave_effects:
  assumes rpc: "1 \<le> ROWS_PER_CHUNK cfg"
  shows "(\<And>off w. off \<in> set (chunk_offsets (ROWS_PER_CHUNK cfg) tot offset) \<Longrightarrow>
            \<exists>w'. process_chunk cfg srv off fns w = (Inr (c off), w') \<and>
                 contents (temp_output w') = contents (temp_output w) @ R off \<and>
                 chunk_error_offsets (error_log w') = chunk_error_offsets (error_log w) @ E off) \<Longrightarrow>
     \<exists>offset' w'. scan_wave cfg srv fns tot m offset w
          = ((map (\<lambda>off. Inr (c off)) (take m (chunk_offsets (ROWS_PER_CHUNK cfg) tot offset)), offset'), w') \<and>
        contents (temp_output w') = contents (temp_output w)
          @ concat (map R (take m (chunk_offsets (ROWS_PER_CHUNK cfg) tot offset))) \<and>
        chunk_error_offsets (error_log w') = chunk_error_offsets (error_log w)
          @ concat (map E (take m (chunk_offsets (ROWS_PER_CHUNK cfg) tot offset)))"
proof (induction m arbitrary: offset w)
  case 0
  then show ?case by simp
next
  case (Suc m)
  show ?case
  proof (cases "tot \<le> offset")
    case True
    then show ?thesis by (simp add: chunk_offsets_done[OF rpc])
  next
    case False
    have st: "chunk_offsets (ROWS_PER_CHUNK cfg) tot offset
        = offset # chunk_offsets (ROWS_PER_CHUNK cfg) tot (offset + ROWS_PER_CHUNK cfg)"
      using chunk_offsets_step[OF rpc] False by simp
    let ?w0 = "w\<lparr>submitted := submitted w @ [ScanChunk offset]\<rparr>"
    from Suc.prems[of offset ?w0] obtain w1 where
      pc: "process_chunk cfg srv offset fns ?w0 = (Inr (c offset), w1)" and
      t1: "contents (temp_output w1) = contents (temp_output w) @ R offset" and
      e1: "chunk_error_offsets (error_log w1) = chunk_error_offsets (error_log w) @ E offset"
      unfolding st by auto
    have "\<And>off w. off \<in> set (chunk_offsets (ROWS_PER_CHUNK cfg) tot (offset + ROWS_PER_CHUNK cfg)) \<Longrightarrow>
            \<exists>w'. process_chunk cfg srv off fns w = (Inr (c off), w') \<and>
                 contents (temp_output w') = contents (temp_output w) @ R off \<and>
                 chunk_error_offsets (error_log w') = chunk_error_offsets (error_log w) @ E off"
      using Suc.prems unfolding st by simp
    from Suc.IH[of "offset + ROWS_PER_CHUNK cfg" w1, OF this] obtain o2 w2 where
      sw: "scan_wave cfg srv fns tot m (offset + ROWS_PER_CHUNK cfg) w1
          = ((map (\<lambda>off. Inr (c off)) (take m (chunk_offsets (ROWS_PER_CHUNK cfg) tot (offset + ROWS_PER_CHUNK cfg))), o2), w2)" and
      t2: "contents (temp_output w2) = contents (temp_output w1)
          @ concat (map R (take m (chunk_offsets (ROWS_PER_CHUNK cfg) tot (offset + ROWS_PER_CHUNK cfg))))" and
      e2: "chunk_error_offsets (error_log w2) = chunk_error_offsets (error_log w1)
          @ concat (map E (take m (chunk_offsets (ROWS_PER_CHUNK cfg) tot (offset + ROWS_PER_CHUNK cfg))))"
      by blast
    show ?thesis
      unfolding st using False pc sw t1 t2 e1 e2
      by (intro exI[of _ o2] exI[of _ w2]) simp
  qed
qed

lemma scan_loop_effects:
  assumes rpc: "1 \<le> ROWS_PER_CHUNK cfg" and mt: "1 \<le> MAX_PARALLEL_TASKS cfg"
  shows "(\<And>off w. off \<in> set (chunk_offsets (ROWS_PER_CHUNK cfg) tot offset) \<Longrightarrow>
            \<exists>w'. process_chunk cfg srv off fns w = (Inr (c off), w') \<and>
                 contents (temp_output w') = contents (temp_output w) @ R off \<and>
                 chunk_error_offsets (error_log w') = chunk_error_offsets (error_log w) @ E off) \<Longrightarrow>
     \<exists>off w'. scan_loop cfg srv fns tot offset dumped w
          = Some (Inr (off, dumped + sum_list (map c (chunk_offsets (ROWS_PER_CHUNK cfg) tot offset))), w') \<and>
        contents (temp_output w') = contents (temp_output w)
          @ concat (map R (chunk_offsets (ROWS_PER_CHUNK cfg) tot offset)) \<and>
        chunk_error_offsets (error_log w') = chunk_error_offsets (error_log w)
          @ concat (map E (chunk_offsets (ROWS_PER_CHUNK cfg) tot offset))"
proof (induction "length (chunk_offsets (ROWS_PER_CHUNK cfg) tot offset)"
    arbitrary: offset dumped w rule: less_induct)
  case less
  let ?offs = "chunk_offsets (ROWS_PER_CHUNK cfg) tot offset"
  let ?m = "MAX_PARALLEL_TASKS cfg"
  show ?case
  proof (cases "offset < tot")
    case False
    then have "scan_loop cfg srv fns tot offset dumped w = Some (Inr (offset, dumped), w)"
      by (subst scan_loop.simps) simp
    moreover have "?offs = []" using False chunk_offsets_done[OF rpc] by simp
    ultimately show ?thesis by simp
  next
    case True
    have per_take: "\<And>off w. off \<in> set ?offs \<Longrightarrow>
            \<exists>w'. process_chunk cfg srv off fns w = (Inr (c off), w') \<and>
                 contents (temp_output w') = contents (temp_output w) @ R off \<and>
                 chunk_error_offsets (error_log w') = chunk_error_offsets (error_log w) @ E off"
      using less.prems by blast
    from scan_wave_effects[OF rpc per_take, of tot offset ?m w] obtain o1 w1 where
      sw: "scan_wave cfg srv fns tot ?m offset w
          = ((map (\<lambda>off. Inr (c off)) (take ?m ?offs), o1), w1)" and
      t1: "contents (temp_output w1) = contents (temp_output w) @ concat (map R (take ?m ?offs))" and
      e1: "chunk_error_offsets (error_log w1) = chunk_error_offsets (error_log w)
          @ concat (map E (take ?m ?offs))"
      by blast
    have dr: "chunk_offsets (ROWS_PER_CHUNK cfg) tot o1 = drop ?m ?offs"
      using scan_wave_submitted[OF rpc sw] by blast
    have ne: "?offs \<noteq> []" using chunk_offsets_step[OF rpc True] by simp
    have lt: "length (chunk_offsets (ROWS_PER_CHUNK cfg) tot o1) < length ?offs"
      unfolding dr using ne mt by (cases ?offs) auto
    have jw: "join_wave (map (\<lambda>off. Inr (c off)) (take ?m ?offs)) dumped
        = Inr (dumped + sum_list (map c (take ?m ?offs)))"
      using join_wave_counts[of "map c (take ?m ?offs)" dumped] by (simp add: comp_def)
    have step: "scan_loop cfg srv fns tot offset dumped w
        = scan_loop cfg srv fns tot o1 (dumped + sum_list (map c (take ?m ?offs))) w1"
      by (subst scan_loop.simps) (simp add: True sw jw)
    have per_drop: "\<And>off w. off \<in> set (chunk_offsets (ROWS_PER_CHUNK cfg) tot o1) \<Longrightarrow>
            \<exists>w'. process_chunk cfg srv off fns w = (Inr (c off), w') \<and>
                 contents (temp_output w') = contents (temp_output w) @ R off \<and>
                 chunk_error_offsets (error_log w') = chunk_error_offsets (error_log w) @ E off"
      unfolding dr using less.prems by (meson in_set_dropD)
    from less.hyps[of o1 "dumped + sum_list (map c (take ?m ?offs))" w1, OF lt per_drop]
    obtain off w' where
      r: "scan_loop cfg srv fns tot o1 (dumped + sum_list (map c (take ?m ?offs))) w1
          = Some (Inr (off, dumped + sum_list (map c (take ?m ?offs))
                         + sum_list (map c (drop ?m ?offs))), w')" and
      t2: "contents (temp_output w') = contents (temp_output w1) @ concat (map R (drop ?m ?offs))" and
      e2: "chunk_error_offsets (error_log w') = chunk_error_offsets (error_log w1)
          @ concat (map E (drop ?m ?offs))"
      unfolding dr by blast
    have s: "sum_list (map c (take ?m ?offs)) + sum_list (map c (drop ?m ?offs)) = sum_list (map c ?offs)"
      by (metis append_take_drop_id map_append sum_list_append)
    have cR: "concat (map R (take ?m ?offs)) @ concat (map R (drop ?m ?offs)) = concat (map R ?offs)"
      by (metis append_take_drop_id map_append concat_append)
    have cE: "concat (map E (take ?m ?offs)) @ concat (map E (drop ?m ?offs)) = concat (map E ?offs)"
      by (metis append_take_drop_id map_append concat_append)
    show ?thesis
      apply (intro exI[of _ off] exI[of _ w'])
      unfolding step r t2 e2 t1 e1
      using s cR cE by (simp add: add.assoc)
  qed
qed

lemma sum_planned:
  assumes rpc: "1 \<le> rpc"
  shows "sum_list (map (\<lambda>off. min rpc (tot - off)) (chunk_offsets rpc tot offset)) = max 0 (tot - offset)"
proof (induction "length (chunk_offsets rpc tot offset)" arbitrary: offset)
  case 0
  then have "\<not> offset < tot" using chunk_offsets_step[OF rpc, of offset tot] by auto
  then show ?case using 0 by simp
next
  case (Suc n)
  then have lt: "offset < tot" using chunk_offsets_done[OF rpc, of tot offset] by (cases "offset < tot") auto
  note st = chunk_offsets_step[OF rpc lt]
  have "n = length (chunk_offsets rpc tot (offset + rpc))" using Suc(2) st by simp
  from Suc(1)[OF this] show ?case unfolding st using lt by (simp add: min_def max_def)
qed

lemma distinct_chunk_offsets: "1 \<le> rpc \<Longrightarrow> distinct (chunk_offsets rpc tot offset)"
  by (auto simp: chunk_offsets_def distinct_map inj_on_def)

lemma sum_list_except:
  fixes f :: "'a \<Rightarrow> int"
  shows "distinct xs \<Longrightarrow> x \<in> set xs \<Longrightarrow>
    sum_list (map (\<lambda>y. if y = x then 0 else f y) xs) = sum_list (map f xs) - f x"
proof (induction xs)
  case Nil then show ?case by simp
next
  case (Cons a xs)
  have nin: "x \<notin> set xs \<Longrightarrow> sum_list (map (\<lambda>y. if y = x then 0 else f y) xs) = sum_list (map f xs)"
    by (induction xs) auto
  show ?case using Cons nin by auto
qed

lemma concat_except:
  "concat (map (\<lambda>y. if y = x then [] else g y) xs) = concat (map g [y \<leftarrow> xs. y \<noteq> x])"
  by (induction xs) auto

lemma concat_only:
  "distinct xs \<Longrightarrow> x \<in> set xs \<Longrightarrow> concat (map (\<lambda>y. if y = x then [x] else []) xs) = [x]"
proof (induction xs)
  case Nil then show ?case by simp
next
  case (Cons a xs)
  have nin: "x \<notin> set xs \<Longrightarrow> concat (map (\<lambda>y. if y = x then [x] else []) xs) = []"
    by (induction xs) auto
  show ?case using Cons nin by auto
qed

text \<open>
  C5, for a chunk size of at least one.  Let exactly one of the offsets of the scan,
  \<open>bad\<close>, have a chunk that is never answered with status 200, with a full chunk planned
  at it, and let every other offset \<open>off\<close> be answered with the page \<open>page off\<close> of status
  200 that holds the planned number of records, all of them accepted by the row writer.
  Then the loop ends without an exception with \<open>total - ROWS_PER_CHUNK\<close> records counted,
  the error log gains exactly one chunk-level entry, for \<open>bad\<close>, and the buffer gains the
  rows of the pages of all other offsets, in order.
\<close>

theorem failed_chunk_is_isolated:
  assumes rpc: "1 \<le> ROWS_PER_CHUNK cfg" and mt: "1 \<le> MAX_PARALLEL_TASKS cfg"
      and bad: "bad \<in> set (chunk_offsets (ROWS_PER_CHUNK cfg) tot 0)"
      and full: "bad + ROWS_PER_CHUNK cfg \<le> tot"
      and fails: "\<forall>h. \<not> delivers (srv h (scan_request cfg bad))"
      and others: "\<forall>off \<in> set (chunk_offsets (ROWS_PER_CHUNK cfg) tot 0). off \<noteq> bad \<longrightarrow>
          (\<forall>h. srv h (scan_request cfg off) = Responds (page off)) \<and>
          status_code (page off) = 200 \<and>
          int (length (get_records (Some (page off)))) = min (ROWS_PER_CHUNK cfg) (tot - off) \<and>
          list_all (writable fns) (get_records (Some (page off)))"
  shows "\<exists>off w'. scan_loop cfg srv fns tot 0 0 w = Some (Inr (off, tot - ROWS_PER_CHUNK cfg), w') \<and>
      chunk_error_offsets (error_log w') = chunk_error_offsets (error_log w) @ [bad] \<and>
      contents (temp_output w') = contents (temp_output w) @
        concat (map (\<lambda>off. map (scan_row fns) (get_records (Some (page off))))
                  [off \<leftarrow> chunk_offsets (ROWS_PER_CHUNK cfg) tot 0. off \<noteq> bad])"
proof -
  let ?rpc = "ROWS_PER_CHUNK cfg"
  let ?offs = "chunk_offsets ?rpc tot 0"
  let ?c = "\<lambda>off. if off = bad then 0 else min ?rpc (tot - off)"
  let ?R = "\<lambda>off. if off = bad then [] else map (scan_row fns) (get_records (Some (page off)))"
  let ?E = "\<lambda>off. if off = bad then [bad] else []"
  have per: "\<exists>w'. process_chunk cfg srv off fns w = (Inr (?c off), w') \<and>
                 contents (temp_output w') = contents (temp_output w) @ ?R off \<and>
                 chunk_error_offsets (error_log w') = chunk_error_offsets (error_log w) @ ?E off"
    if "off \<in> set ?offs" for off w
  proof (cases "off = bad")
    case True
    have "\<exists>w'. process_chunk cfg srv bad fns w = (Inr 0, w') \<and>
           temp_output w' = temp_output w \<and>
           chunk_error_offsets (error_log w') = chunk_error_offsets (error_log w) @ [bad]"
      by (rule process_chunk_undelivered) (use fails in blast)
    then show ?thesis
      unfolding True by auto
  next
    case False
    with others that have a: "\<And>h. srv h (scan_request cfg off) = Responds (page off)"
      and b: "status_code (page off) = 200"
      and c: "int (length (get_records (Some (page off)))) = min ?rpc (tot - off)"
      and d: "list_all (writable fns) (get_records (Some (page off)))"
      by blast+
    have "process_chunk cfg srv off fns w =
           (Inr (int (length (get_records (Some (page off))))),
            w\<lparr>sent := sent w @ [scan_request cfg off],
              temp_output := Some (contents (temp_output w)
                @ map (scan_row fns) (get_records (Some (page off))))\<rparr>)"
      by (rule process_chunk_delivered) (use a b d in simp_all)
    then show ?thesis
      using False c by (simp add: contents_def)
  qed
  have "\<exists>off w'. scan_loop cfg srv fns tot 0 0 w
          = Some (Inr (off, 0 + sum_list (map ?c ?offs)), w') \<and>
        contents (temp_output w') = contents (temp_output w) @ concat (map ?R ?offs) \<and>
        chunk_error_offsets (error_log w') = chunk_error_offsets (error_log w)
          @ concat (map ?E ?offs)"
    by (rule scan_loop_effects[OF rpc mt]) (rule per)
  then obtain off w' where
    r: "scan_loop cfg srv fns tot 0 0 w = Some (Inr (off, 0 + sum_list (map ?c ?offs)), w')" and
    t: "contents (temp_output w') = contents (temp_output w) @ concat (map ?R ?offs)" and
    e: "chunk_error_offsets (error_log w') = chunk_error_offsets (error_log w) @ concat (map ?E ?offs)"
    by blast
  have d: "distinct ?offs" using distinct_chunk_offsets[OF rpc] .
  have pos: "0 < tot"
  proof (rule ccontr)
    assume "\<not> 0 < tot"
    then have "?offs = []" using chunk_offsets_done[OF rpc, of tot 0] by simp
    with bad show False by simp
  qed
  have "sum_list (map ?c ?offs) = sum_list (map (\<lambda>off. min ?rpc (tot - off)) ?offs) - min ?rpc (tot - bad)"
    using sum_list_except[OF d bad, of "\<lambda>off. min ?rpc (tot - off)"] .
  also have "\<dots> = tot - ?rpc"
    using sum_planned[OF rpc, of tot 0] pos full by (simp add: min_def)
  finally have s: "sum_list (map ?c ?offs) = tot - ?rpc" .
  have cr: "concat (map ?R ?offs)
      = concat (map (\<lambda>off. map (scan_row fns) (get_records (Some (page off)))) [off \<leftarrow> ?offs. off \<noteq> bad])"
    by (rule concat_except)
  have ce: "concat (map ?E ?offs) = [bad]" using concat_only[OF d bad] .
  show ?thesis
    using r t e unfolding s cr ce by (intro exI[of _ off] exI[of _ w']) simp
qed

lemma example_offsets: "chunk_offsets (ROWS_PER_CHUNK example_config) 5 0 = [0, 2, 4]"
  by (simp add: chunk_offsets_def chunks_left_def example_config_def upt_rec)

theorem failed_chunk_is_isolated_witness:
  "2 \<in> set (chunk_offsets (ROWS_PER_CHUNK example_config) 5 0) \<and>
   (\<forall>h. \<not> delivers (one_failure_server h (scan_request example_config 2))) \<and>
   (\<exists>off w'. scan_loop example_config one_failure_server [''skyflow_id'', ''name''] 5 0 0 initial_world
        = Some (Inr (off, 3), w') \<and>
      chunk_error_offsets (error_log w') = [2] \<and>
      contents (temp_output w') = [[''a'', ''Ada''], [''b'', ''Bob''], [''e'', ''Eve'']])"
proof -
  have rpc: "1 \<le> ROWS_PER_CHUNK example_config" and mt: "1 \<le> MAX_PARALLEL_TASKS example_config"
    by (simp_all add: example_config_def)
  have bad: "2 \<in> set (chunk_offsets (ROWS_PER_CHUNK example_config) 5 0)"
    by (simp add: example_offsets)
  have full: "2 + ROWS_PER_CHUNK example_config \<le> 5"
    by (simp add: example_config_def)
  have fails: "\<forall>h. \<not> delivers (one_failure_server h (scan_request example_config 2))"
    by (simp add: one_failure_server_def scan_request_def delivers_def)
  have others: "\<forall>off \<in> set (chunk_offsets (ROWS_PER_CHUNK example_config) 5 0). off \<noteq> 2 \<longrightarrow>
          (\<forall>h. one_failure_server h (scan_request example_config off) = Responds (example_page off)) \<and>
          status_code (example_page off) = 200 \<and>
          int (length (get_records (Some (example_page off)))) = min (ROWS_PER_CHUNK example_config) (5 - off) \<and>
          list_all (writable [''skyflow_id'', ''name'']) (get_records (Some (example_page off)))"
    unfolding example_offsets
    by (simp add: one_failure_server_def scan_request_def example_page_def
        example_response_def example_records_def get_records_def writable_def example_config_def)
  have rows: "concat (map (\<lambda>off. map (scan_row [''skyflow_id'', ''name''])
                 (get_records (Some (example_page off))))
               [off \<leftarrow> chunk_offsets (ROWS_PER_CHUNK example_config) 5 0. off \<noteq> 2])
            = [[''a'', ''Ada''], [''b'', ''Bob''], [''e'', ''Eve'']]"
    unfolding example_offsets
    by (simp add: example_page_def example_response_def example_records_def
        get_records_def scan_row_def cell_def)
  have five: "5 - ROWS_PER_CHUNK example_config = 3" by (simp add: example_config_def)
  have init: "chunk_error_offsets (error_log initial_world) = []" "contents (temp_output initial_world) = []"
    by (simp_all add: initial_world_def chunk_error_offsets_def contents_def)
  show ?thesis
    using bad fails
      failed_chunk_is_isolated [OF rpc mt bad full fails others, of initial_world]
    unfolding rows five init by simp
qed

subsection \<open>The offsets the scan submits\<close>

lemma scan_loop_continue:
  "offset < tot \<Longrightarrow>
   scan_loop cfg srv fns tot offset dumped w =
     (case scan_wave cfg srv fns tot (MAX_PARALLEL_TASKS cfg) offset w of
        ((futures, offset'), w') \<Rightarrow>
          (case join_wave futures dumped of
             Inl e \<Rightarrow> Some (Inl e, w')
           | Inr dumped' \<Rightarrow> scan_loop cfg srv fns tot offset' dumped' w'))"
  by (subst scan_loop.simps) simp

lemma scan_loop_exit:
  "\<not> offset < tot \<Longrightarrow> scan_loop cfg srv fns tot offset dumped w = Some (Inr (offset, dumped), w)"
  by (subst scan_loop.simps) simp

lemma make_api_call_Some_from:
  "make_api_call srv rq w = (Some r, w') \<Longrightarrow> \<exists>h. srv h rq = Responds r"
  by (auto simp: make_api_call_unfold attempt_result_def raise_for_status_def
      split: sum.splits outcome.splits if_splits)

lemma process_chunk_returns:
  assumes "\<forall>h r. srv h (scan_request cfg offset) = Responds r \<and> status_code r = 200
             \<longrightarrow> list_all (writable fns) (get_records (Some r))"
  shows "\<exists>n w'. process_chunk cfg srv offset fns w = (Inr n, w')"
proof -
  obtain resp w1 where m: "make_api_call srv (scan_request cfg offset) w = (resp, w1)"
    by (cases "make_api_call srv (scan_request cfg offset) w")
  show ?thesis
  proof (cases "succeeded resp")
    case False
    then show ?thesis by (simp add: process_chunk_def m Let_def)
  next
    case True
    then obtain r where r: "resp = Some r" "status_code r = 200"
      by (auto simp: succeeded_def split: option.splits)
    from make_api_call_Some_from m r obtain h where "srv h (scan_request cfg offset) = Responds r"
      by blast
    with assms r have "list_all (writable fns) (get_records (Some r))" by blast
    moreover have "succeeded (Some r)" using True r(1) by simp
    ultimately show ?thesis
      by (simp add: process_chunk_def m r(1) write_records_writable)
  qed
qed

lemma join_wave_returns: "\<forall>f \<in> set futs. \<exists>n. f = Inr n \<Longrightarrow> \<exists>d'. join_wave futs d = Inr d'"
proof (induction futs arbitrary: d)
  case Nil
  then show ?case by simp
next
  case (Cons a futs)
  then show ?case by (cases a) auto
qed

lemma scan_wave_returns:
  assumes rpc: "1 \<le> ROWS_PER_CHUNK cfg"
  shows "(\<And>off w. off \<in> set (chunk_offsets (ROWS_PER_CHUNK cfg) tot offset) \<Longrightarrow>
            \<exists>n w'. process_chunk cfg srv off fns w = (Inr n, w')) \<Longrightarrow>
         scan_wave cfg srv fns tot m offset w = ((futs, offset'), w') \<Longrightarrow>
         \<forall>f \<in> set futs. \<exists>n. f = Inr n"
proof (induction m arbitrary: offset w futs offset' w')
  case 0
  then show ?case by simp
next
  case (Suc m)
  show ?case
  proof (cases "tot \<le> offset")
    case True
    with Suc.prems(2) show ?thesis by simp
  next
    case False
    have st: "chunk_offsets (ROWS_PER_CHUNK cfg) tot offset
        = offset # chunk_offsets (ROWS_PER_CHUNK cfg) tot (offset + ROWS_PER_CHUNK cfg)"
      using chunk_offsets_step[OF rpc] False by simp
    obtain result w1 where pc: "process_chunk cfg srv offset fns
        (w\<lparr>submitted := submitted w @ [ScanChunk offset]\<rparr>) = (result, w1)"
      by (metis prod.exhaust)
    obtain results o2 w2 where sw: "scan_wave cfg srv fns tot m (offset + ROWS_PER_CHUNK cfg) w1
        = ((results, o2), w2)"
      by (metis prod.exhaust)
    from Suc.prems(2) False pc sw have futs: "futs = result # results" by auto
    from Suc.prems(1)[of offset "w\<lparr>submitted := submitted w @ [ScanChunk offset]\<rparr>"] pc
    have r: "\<exists>n. result = Inr n" unfolding st by auto
    have "\<And>off w. off \<in> set (chunk_offsets (ROWS_PER_CHUNK cfg) tot (offset + ROWS_PER_CHUNK cfg)) \<Longrightarrow>
            \<exists>n w'. process_chunk cfg srv off fns w = (Inr n, w')"
      using Suc.prems(1) unfolding st by simp
    from Suc.IH[OF this sw] r show ?thesis unfolding futs by simp
  qed
qed

lemma scan_loop_returns:
  assumes rpc: "1 \<le> ROWS_PER_CHUNK cfg" and mt: "1 \<le> MAX_PARALLEL_TASKS cfg"
  shows "(\<And>off w. off \<in> set (chunk_offsets (ROWS_PER_CHUNK cfg) tot offset) \<Longrightarrow>
            \<exists>n w'. process_chunk cfg srv off fns w = (Inr n, w')) \<Longrightarrow>
         \<exists>off d w'. scan_loop cfg srv fns tot offset dumped w = Some (Inr (off, d), w')"
proof (induction "length (chunk_offsets (ROWS_PER_CHUNK cfg) tot offset)"
    arbitrary: offset dumped w rule: less_induct)
  case less
  let ?offs = "chunk_offsets (ROWS_PER_CHUNK cfg) tot offset"
  let ?m = "MAX_PARALLEL_TASKS cfg"
  show ?case
  proof (cases "offset < tot")
    case False
    then show ?thesis by (simp add: scan_loop_exit)
  next
    case True
    obtain futs o1 w1 where sw: "scan_wave cfg srv fns tot ?m offset w = ((futs, o1), w1)"
      by (metis prod.exhaust)
    have dr: "chunk_offsets (ROWS_PER_CHUNK cfg) tot o1 = drop ?m ?offs"
      using scan_wave_submitted[OF rpc sw] by blast
    have ne: "?offs \<noteq> []" using chunk_offsets_step[OF rpc True] by simp
    have lt: "length (chunk_offsets (ROWS_PER_CHUNK cfg) tot o1) < length ?offs"
      unfolding dr using ne mt by (cases ?offs) auto
    have "\<forall>f \<in> set futs. \<exists>n. f = Inr n"
      by (rule scan_wave_returns[OF rpc _ sw]) (use less.prems in blast)
    from join_wave_returns[OF this, of dumped] obtain d' where jw: "join_wave futs dumped = Inr d'"
      by blast
    have step: "scan_loop cfg srv fns tot offset dumped w = scan_loop cfg srv fns tot o1 d' w1"
      by (simp add: scan_loop_continue[OF True] sw jw)
    have per: "\<And>off w. off \<in> set (chunk_offsets (ROWS_PER_CHUNK cfg) tot o1) \<Longrightarrow>
            \<exists>n w'. process_chunk cfg srv off fns w = (Inr n, w')"
      unfolding dr using less.prems by (meson in_set_dropD)
    from less.hyps[of o1 d' w1, OF lt per] show ?thesis unfolding step .
  qed
qed

text \<open>
  C1, for a chunk size of at least one (and the parallelism of at least one that the
  argument parser enforces) and a service none of whose pages makes the row writer
  raise: every page delivered with status 200 for an offset of the scan holds only
  records the writer accepts.  Whatever else the service does, and however many rows a
  chunk returns (none when it fails), the scan loop ends without an exception, the
  offsets it has submitted are, in order and each once, exactly the multiples of the
  chunk size below the total, and the cursor it ends with is the first multiple of the
  chunk size that has reached the total.
\<close>

theorem scan_offsets_exactly_once:
  assumes rpc: "1 \<le> ROWS_PER_CHUNK cfg" and mt: "1 \<le> MAX_PARALLEL_TASKS cfg"
      and accepted: "\<forall>off \<in> set (chunk_offsets (ROWS_PER_CHUNK cfg) tot 0). \<forall>h r.
          srv h (scan_request cfg off) = Responds r \<and> status_code r = 200
            \<longrightarrow> list_all (writable fns) (get_records (Some r))"
  shows "\<exists>d w'.
      scan_loop cfg srv fns tot 0 0 w
        = Some (Inr (int (chunks_left (ROWS_PER_CHUNK cfg) tot 0) * ROWS_PER_CHUNK cfg, d), w') \<and>
      submitted w' = submitted w @
        map (\<lambda>i. ScanChunk (int i * ROWS_PER_CHUNK cfg)) [0..<chunks_left (ROWS_PER_CHUNK cfg) tot 0] \<and>
      distinct (map (\<lambda>i. ScanChunk (int i * ROWS_PER_CHUNK cfg))
                  [0..<chunks_left (ROWS_PER_CHUNK cfg) tot 0]) \<and>
      (\<forall>i. i < chunks_left (ROWS_PER_CHUNK cfg) tot 0 \<longleftrightarrow> int i * ROWS_PER_CHUNK cfg < tot) \<and>
      tot \<le> int (chunks_left (ROWS_PER_CHUNK cfg) tot 0) * ROWS_PER_CHUNK cfg"
proof -
  let ?rpc = "ROWS_PER_CHUNK cfg"
  let ?n = "chunks_left ?rpc tot 0"
  have len: "length (chunk_offsets ?rpc tot 0) = ?n" by (simp add: chunk_offsets_def)
  have per: "\<exists>n w'. process_chunk cfg srv off fns w = (Inr n, w')"
    if "off \<in> set (chunk_offsets ?rpc tot 0)" for off w
    by (rule process_chunk_returns) (use accepted that in blast)
  have "\<exists>off d w'. scan_loop cfg srv fns tot 0 0 w = Some (Inr (off, d), w')"
    by (rule scan_loop_returns[OF rpc mt]) (rule per)
  then obtain off d w' where r: "scan_loop cfg srv fns tot 0 0 w = Some (Inr (off, d), w')"
    by blast
  from scan_loop_submitted[OF rpc mt, of srv fns tot 0 0 w] r obtain k where
    s: "submitted w' = submitted w @ map ScanChunk (take k (chunk_offsets ?rpc tot 0))" and
    f: "k = ?n \<and> off = 0 + ?rpc * int ?n"
    unfolding len by auto
  have iff: "\<forall>i. i < ?n \<longleftrightarrow> int i * ?rpc < tot"
    using chunks_left_iff[OF rpc, of 0 _ tot] by simp
  have k: "k \<le> ?n" using f by simp
  have s': "submitted w' = submitted w @ map (\<lambda>i. ScanChunk (int i * ?rpc)) [0..<?n]"
    using s f unfolding take_chunk_offsets[OF k] by simp
  have inj: "inj_on (\<lambda>i. ScanChunk (int i * ?rpc)) (set [0..<?n])"
    using rpc by (auto simp: inj_on_def)
  have d: "distinct (map (\<lambda>i. ScanChunk (int i * ?rpc)) [0..<?n])"
    using inj by (simp add: distinct_map)
  have "\<not> int ?n * ?rpc < tot" using iff by blast
  then have ge: "tot \<le> int ?n * ?rpc" by simp
  have o: "off = int ?n * ?rpc" using f by (simp add: mult.commute)
  show ?thesis
    using r s' d iff ge unfolding o by blast
qed

theorem scan_offsets_exactly_once_witness:
  "1 \<le> ROWS_PER_CHUNK example_config \<and> 1 \<le> MAX_PARALLEL_TASKS example_config \<and>
   (\<exists>d w'. scan_loop example_config one_failure_server [''skyflow_id'', ''name''] 5 0 0 initial_world
        = Some (Inr (6, d), w') \<and>
      submitted w' = [ScanChunk 0, ScanChunk 2, ScanChunk 4])"
proof -
  have rpc: "1 \<le> ROWS_PER_CHUNK example_config" and mt: "1 \<le> MAX_PARALLEL_TASKS example_config"
    by (simp_all add: example_config_def)
  have accepted: "\<forall>off \<in> set (chunk_offsets (ROWS_PER_CHUNK example_config) 5 0). \<forall>h r.
          one_failure_server h (scan_request example_config off) = Responds r \<and> status_code r = 200
            \<longrightarrow> list_all (writable [''skyflow_id'', ''name'']) (get_records (Some r))"
    unfolding example_offsets
    by (auto simp: one_failure_server_def scan_request_def example_page_def
        example_response_def example_records_def get_records_def writable_def)
  have n: "chunks_left (ROWS_PER_CHUNK example_config) 5 0 = 3"
    by (simp add: chunks_left_def example_config_def)
  have two: "ROWS_PER_CHUNK example_config = 2" by (simp add: example_config_def)
  have l: "map (\<lambda>i. ScanChunk (int i * 2)) [0..<3] = [ScanChunk 0, ScanChunk 2, ScanChunk 4]"
    by (simp add: upt_rec)
  have e: "submitted initial_world = []" by (simp add: initial_world_def)
  have n2: "chunks_left 2 5 0 = 3" by (simp add: chunks_left_def)
  show ?thesis
    using rpc mt scan_offsets_exactly_once [OF rpc mt accepted, of initial_world]
    unfolding two e by (auto simp: n2 l)
qed

text \<open>
  With a chunk size of zero, a total of one and two parallel tasks, the first wave
  submits offset 0 twice.  With a chunk size of two, a total of five and pages that make
  the row writer raise, the loop ends with the exception after the first wave: offset 4,
  a multiple of the chunk size below the total, is never submitted.
\<close>

theorem offsets_resubmitted_or_skipped:
  "submitted (snd (scan_wave zero_chunk_config unreachable_server [] 1 2 0 initial_world))
     = [ScanChunk 0, ScanChunk 0] \<and>
   scan_loop example_config extra_field_server [''skyflow_id'', ''name''] 5 0 0 initial_world
     = Some (Inl (ValueError [''ssn'']),
             initial_world\<lparr>sent := [scan_request example_config 0, scan_request example_config 2],
                             submitted := [ScanChunk 0, ScanChunk 2],
                             temp_output := Some []\<rparr>) \<and>
   (4 :: int) < 5 \<and> 4 = 2 * ROWS_PER_CHUNK example_config"
proof -
  have a: "submitted (snd (scan_wave zero_chunk_config unreachable_server [] 1 2 0 initial_world))
     = [ScanChunk 0, ScanChunk 0]"
    by (simp add: numeral_2_eq_2 zero_chunk_config_def example_config_def initial_world_def
      process_chunk_def make_api_call_unfold unreachable_server_def attempt_result_def
      succeeded_def print_def log_error_def Let_def)
  have b: "scan_loop example_config extra_field_server [''skyflow_id'', ''name''] 5 0 0 initial_world
     = Some (Inl (ValueError [''ssn'']),
             initial_world\<lparr>sent := [scan_request example_config 0, scan_request example_config 2],
                             submitted := [ScanChunk 0, ScanChunk 2],
                             temp_output := Some []\<rparr>)"
    by (simp add: scan_loop_continue numeral_2_eq_2 example_config_def initial_world_def
      process_chunk_def make_api_call_unfold extra_field_server_def attempt_result_def
      raise_for_status_def example_response_def succeeded_def ok_def get_records_def
      writerow_def contents_def cell_def scan_request_def)
  show ?thesis using a b by (simp add: example_config_def)
qed

subsection \<open>A record with a field outside the column order\<close>

lemma py_dict_snoc: "py_dict (kvs @ [(k, v)]) = AList.update k v (py_dict kvs)"
  by (simp add: py_dict_def)

lemma map_of_py_dict: "map_of (py_dict kvs) = map_of (rev kvs)"
proof (induction kvs rule: rev_induct)
  case Nil
  then show ?case by (simp add: py_dict_def)
next
  case (snoc x xs)
  obtain k v where x: "x = (k, v)" by (cases x)
  show ?case unfolding x py_dict_snoc by (simp add: update_conv' snoc)
qed

lemma keys_py_dict: "fst ` set (py_dict kvs) = fst ` set kvs"
proof -
  have "fst ` set (py_dict kvs) = dom (map_of (py_dict kvs))" by (simp add: dom_map_of_conv_image_fst)
  also have "\<dots> = dom (map_of (rev kvs))" by (simp only: map_of_py_dict)
  also have "\<dots> = fst ` set kvs" by (simp add: dom_map_of_conv_image_fst)
  finally show ?thesis .
qed

lemma map_of_tabulate: "map_of (map (\<lambda>k. (k, g k)) ks) k = (if k \<in> set ks then Some (g k) else None)"
  by (induction ks) auto

lemma writerow_token_row: "writerow fns (token_row fns record) = Inr (scan_row fns record)"
proof -
  let ?fs = "case jrecord.fields record of None \<Rightarrow> [] | Some fs \<Rightarrow> fs"
  let ?g = "\<lambda>field. case map_of ?fs field of None \<Rightarrow> [] | Some v \<Rightarrow> cell v"
  have t: "token_row fns record = py_dict (map (\<lambda>field. (field, ?g field)) fns)"
    by (simp add: token_row_def Let_def)
  have k: "fst ` set (token_row fns record) \<subseteq> set fns"
    unfolding t keys_py_dict by auto
  have m: "map_of (token_row fns record) f = (if f \<in> set fns then Some (?g f) else None)" for f
    by (simp add: t map_of_py_dict rev_map map_of_tabulate)
  have w: "[k \<leftarrow> map fst (token_row fns record). k \<notin> set fns] = []"
    using k by (auto simp: filter_empty_conv)
  show ?thesis
    by (simp add: writerow_def w dict_get_def m scan_row_def)
qed

lemma write_token_records_total:
  "write_token_records fns recs buf = (None, buf @ map (scan_row fns) recs)"
  by (induction recs arbitrary: buf) (simp_all add: writerow_token_row)








subsection \<open>The gates of a run and its end\<close>








subsection \<open>What a run prints\<close>









subsection \<open>The token file\<close>

lemma map_of_rev_distinct: "distinct (map fst kvs) \<Longrightarrow> map_of (rev kvs) = map_of kvs"
proof (induction kvs)
  case Nil
  then show ?case by simp
next
  case (Cons x xs)
  obtain k v where x: "x = (k, v)" by (cases x)
  from Cons.prems have n: "map_of xs k = None"
    by (simp add: x map_of_eq_None_iff)
  from Cons have IH: "map_of (rev xs) = map_of xs" by simp
  show ?case
    by (rule ext) (simp add: x IH map_add_def n split: option.splits)
qed

lemma map_of_row_dict:
  "distinct fns \<Longrightarrow> map_of (py_dict (zip fns row)) = map_of (zip fns row)"
  by (simp add: map_of_py_dict map_of_rev_distinct map_fst_zip_take distinct_take)

lemma keys_row_dict: "fst ` set (py_dict (zip fns row)) \<subseteq> set fns"
  unfolding keys_py_dict by (auto dest: set_zip_leftD)

lemma column_value_row:
  assumes "distinct fns" "length row = length fns"
  shows "map (column_value fns row) fns = row"
proof (rule nth_equalityI)
  show "length (map (column_value fns row) fns) = length row" using assms by simp
next
  fix i assume "i < length (map (column_value fns row) fns)"
  then have i: "i < length row" using assms by simp
  have "map_of (zip fns row) (fns ! i) = Some (row ! i)"
    using map_of_zip_nth[of fns row i] assms i by simp
  then show "map (column_value fns row) fns ! i = row ! i"
    using i assms by (simp add: column_value_def)
qed

lemma column_value_map:
  "distinct fns \<Longrightarrow> f \<in> set fns \<Longrightarrow> column_value fns (map g fns) f = g f"
  by (simp add: column_value_def map_of_zip_map)

lemma subscript_row_dict:
  assumes "distinct fns" "length row = length fns" "f \<in> set fns"
  shows "subscript (py_dict (zip fns row)) f = Inr (column_value fns row f)"
proof -
  from assms obtain v where "map_of (zip fns row) f = Some v"
    using map_of_zip_is_Some[of fns row f] by auto
  then show ?thesis
    by (simp add: subscript_def map_of_row_dict assms(1) column_value_def)
qed

lemma writerow_row_dict:
  assumes "distinct fns" "length row = length fns"
  shows "writerow fns (py_dict (zip fns row)) = Inr row"
proof -
  have w: "[k \<leftarrow> map fst (py_dict (zip fns row)). k \<notin> set fns] = []"
    using keys_row_dict[of fns row] by (auto simp: filter_empty_conv)
  have "map (\<lambda>f. dict_get (py_dict (zip fns row)) f []) fns = map (column_value fns row) fns"
    by (simp add: dict_get_def column_value_def map_of_row_dict assms(1))
  then show ?thesis by (simp add: writerow_def w column_value_row assms)
qed

lemma writerow_updated_row_dict:
  assumes "distinct fns" "u \<in> set fns"
  shows "writerow fns (AList.update u v (py_dict (zip fns row)))
           = Inr (map (\<lambda>f. if f = u then v else column_value fns row f) fns)"
proof -
  have "fst ` set (AList.update u v (py_dict (zip fns row))) \<subseteq> set fns"
    using keys_row_dict[of fns row] assms(2)
    by (metis (no_types, lifting) dom_map_of_conv_image_fst update_conv' dom_fun_upd
        option.distinct(1) insert_subset)
  then have w: "[k \<leftarrow> map fst (AList.update u v (py_dict (zip fns row))). k \<notin> set fns] = []"
    by (auto simp: filter_empty_conv)
  show ?thesis
    by (simp add: writerow_def w dict_get_def update_conv' map_of_row_dict assms(1)
        column_value_def)
qed

lemma scan_value_Nil: "scan_value u fns [] k = None"
  by (simp add: scan_value_def)

lemma scan_value_Cons:
  "scan_value u fns (row # rest) k =
     (case scan_value u fns rest k of
        Some v \<Rightarrow> Some v
      | None \<Rightarrow> if column_value fns row ''skyflow_id'' = k then Some (column_value fns row u)
                else None)"
  by (simp add: scan_value_def Let_def)

lemma read_ids_rows:
  assumes u: "UNIQUE_ID_COLUMN cfg = Some u" "u \<noteq> []"
      and fns: "distinct fns" "''skyflow_id'' \<in> set fns" "u \<in> set fns"
  shows "rectangular fns rows \<Longrightarrow>
     \<exists>af'. read_ids cfg (map (\<lambda>row. py_dict (zip fns row)) rows) ids af
             = Inr (ids @ map (\<lambda>row. column_value fns row ''skyflow_id'') rows, af') \<and>
           (\<forall>k. map_of af' k = (case scan_value u fns rows k of
                                   None \<Rightarrow> map_of af k | Some v \<Rightarrow> Some v))"
proof (induction rows arbitrary: ids af)
  case Nil
  then show ?case by (simp add: scan_value_Nil)
next
  case (Cons row rest)
  from Cons.prems have len: "length row = length fns" and rest: "rectangular fns rest"
    by (simp_all add: rectangular_def)
  let ?sid = "column_value fns row ''skyflow_id''"
  let ?v = "column_value fns row u"
  from Cons.IH[OF rest, of "ids @ [?sid]" "AList.update ?sid ?v af"]
  obtain af' where
    r: "read_ids cfg (map (\<lambda>row. py_dict (zip fns row)) rest) (ids @ [?sid])
          (AList.update ?sid ?v af)
        = Inr ((ids @ [?sid]) @ map (\<lambda>row. column_value fns row ''skyflow_id'') rest, af')"
    and m: "\<forall>k. map_of af' k = (case scan_value u fns rest k of
                 None \<Rightarrow> map_of (AList.update ?sid ?v af) k | Some v \<Rightarrow> Some v)"
    by blast
  have "read_ids cfg (map (\<lambda>row. py_dict (zip fns row)) (row # rest)) ids af
        = Inr (ids @ map (\<lambda>row. column_value fns row ''skyflow_id'') (row # rest), af')"
    using r by (simp add: subscript_row_dict[OF fns(1) len] fns u)
  moreover have "\<forall>k. map_of af' k = (case scan_value u fns (row # rest) k of
                 None \<Rightarrow> map_of af k | Some v \<Rightarrow> Some v)"
    using m by (auto simp: scan_value_Cons update_conv' split: option.splits)
  ultimately show ?case by blast
qed

lemma merge_write_row:
  assumes u: "UNIQUE_ID_COLUMN cfg = Some u" "u \<noteq> []"
      and fns: "distinct fns" "''skyflow_id'' \<in> set fns" "u \<in> set fns"
      and len: "length row = length fns"
  shows "\<exists>merged. merge_row cfg af (py_dict (zip fns row)) = Inr merged \<and>
           writerow fns merged = Inr (joined_row u fns af row)"
proof (cases "map_of af (column_value fns row ''skyflow_id'')")
  case None
  then show ?thesis
    by (simp add: merge_row_def u subscript_row_dict[OF fns(1) len fns(2)] joined_row_def
        writerow_row_dict[OF fns(1) len])
next
  case (Some v)
  then show ?thesis
    by (simp add: merge_row_def u subscript_row_dict[OF fns(1) len fns(2)] joined_row_def
        writerow_updated_row_dict[OF fns(1) fns(3)])
qed

lemma merge_write_rows:
  assumes u: "UNIQUE_ID_COLUMN cfg = Some u" "u \<noteq> []"
      and fns: "distinct fns" "''skyflow_id'' \<in> set fns" "u \<in> set fns"
  shows "rectangular fns body \<Longrightarrow>
    \<exists>merged_data. merge_rows cfg af (map (\<lambda>row. py_dict (zip fns row)) body) = Inr merged_data \<and>
       (\<forall>buf. write_rows fns merged_data buf = (None, buf @ map (joined_row u fns af) body))"
proof (induction body)
  case Nil
  then show ?case by simp
next
  case (Cons row rest)
  from Cons.prems have len: "length row = length fns" and rest: "rectangular fns rest"
    by (simp_all add: rectangular_def)
  from merge_write_row[OF u fns len, of af] obtain merged where
    m: "merge_row cfg af (py_dict (zip fns row)) = Inr merged"
       "writerow fns merged = Inr (joined_row u fns af row)" by blast
  from Cons.IH[OF rest] obtain merged_data where
    r: "merge_rows cfg af (map (\<lambda>row. py_dict (zip fns row)) rest) = Inr merged_data"
       "\<forall>buf. write_rows fns merged_data buf = (None, buf @ map (joined_row u fns af) rest)"
    by blast
  have "merge_rows cfg af (map (\<lambda>row. py_dict (zip fns row)) (row # rest))
          = Inr (merged # merged_data)"
    by (simp add: m r)
  moreover have "\<forall>buf. write_rows fns (merged # merged_data) buf
          = (None, buf @ map (joined_row u fns af) (row # rest))"
    by (simp add: m r)
  ultimately show ?case by blast
qed

lemma process_token_chunk_buffer:
  assumes "process_token_chunk cfg srv ids fns w = (res, w')" "token_buffer fns w"
  shows "token_buffer fns w'"
proof -
  obtain resp w1 where m: "make_api_call srv (token_request cfg ids) w = (resp, w1)"
    by (metis prod.exhaust)
  have t: "temp_output_token w1 = temp_output_token w" using make_api_call_frame(4)[OF m] .
  from assms(2) obtain body where
    b: "temp_output_token w = Some (fns # body)" "rectangular fns body"
    by (cases "temp_output_token w"; cases "the (temp_output_token w)")
       (auto simp: token_buffer_def)
  show ?thesis
  proof (cases "succeeded resp")
    case True
    with assms(1) have "temp_output_token w'
        = Some ((fns # body) @ map (scan_row fns) (get_records resp))"
      by (auto simp: process_token_chunk_def m write_token_records_total t b contents_def)
    then show ?thesis using b(2)
      by (auto simp: token_buffer_def rectangular_def scan_row_def list_all_iff)
  next
    case False
    with assms(1) have "temp_output_token w' = temp_output_token w"
      by (auto simp: process_token_chunk_def m print_def log_error_def Let_def t)
    then show ?thesis using assms(2) by (simp add: token_buffer_def)
  qed
qed

lemma token_wave_buffer:
  "token_wave cfg srv fns ids m offset w = ((futs, offset'), w') \<Longrightarrow> token_buffer fns w
     \<Longrightarrow> token_buffer fns w'"
proof (induction m arbitrary: offset w futs offset' w')
  case 0
  then show ?case by simp
next
  case (Suc m)
  show ?case
  proof (cases "int (length ids) \<le> offset")
    case True
    with Suc.prems show ?thesis by simp
  next
    case False
    let ?batch = "py_slice ids offset (min (offset + ROWS_PER_CHUNK cfg) (int (length ids)))"
    obtain result w1 where pc: "process_token_chunk cfg srv ?batch fns
        (w\<lparr>submitted := submitted w @ [TokenChunk ?batch]\<rparr>) = (result, w1)"
      by (metis prod.exhaust)
    obtain results o2 w2 where sw: "token_wave cfg srv fns ids m (offset + ROWS_PER_CHUNK cfg) w1
        = ((results, o2), w2)"
      by (metis prod.exhaust)
    from Suc.prems(1) False pc sw have w': "w' = w2" by (auto simp: Let_def)
    have "token_buffer fns (w\<lparr>submitted := submitted w @ [TokenChunk ?batch]\<rparr>)"
      using Suc.prems(2) by (simp add: token_buffer_def)
    from process_token_chunk_buffer[OF pc this] have "token_buffer fns w1" .
    from Suc.IH[OF sw this] show ?thesis unfolding w' .
  qed
qed

lemma token_loop_buffer_aux:
  assumes "token_loop cfg srv fns ids offset dumped w = Some y"
  shows "token_buffer fns w \<longrightarrow> token_buffer fns (snd y)"
proof (rule token_loop.raw_induct
    [where P = "\<lambda>cfg srv fns ids offset dumped w y. token_buffer fns w \<longrightarrow> token_buffer fns (snd y)",
     OF _ assms])
  fix loop c s fs sids off d w0 y0
  assume IH: "\<And>c s fs sids off d w0 y0. loop c s fs sids off d w0 = Some y0 \<Longrightarrow>
                token_buffer fs w0 \<longrightarrow> token_buffer fs (snd y0)"
    and eq: "(if off < int (length sids)
              then case token_wave c s fs sids (MAX_PARALLEL_TASKS c) off w0 of
                     ((futures, offset'), w') \<Rightarrow>
                       (case join_wave futures d of
                          Inl e \<Rightarrow> Some (Inl e, w')
                        | Inr dumped' \<Rightarrow> loop c s fs sids offset' dumped' w')
              else Some (Inr (off, d), w0)) = Some y0"
  show "token_buffer fs w0 \<longrightarrow> token_buffer fs (snd y0)"
  proof (cases "off < int (length sids)")
    case False
    with eq show ?thesis by auto
  next
    case True
    obtain futs o1 w1 where
      tw: "token_wave c s fs sids (MAX_PARALLEL_TASKS c) off w0 = ((futs, o1), w1)"
      by (metis prod.exhaust)
    show ?thesis
    proof (cases "join_wave futs d")
      case (Inl e)
      with eq True tw have "snd y0 = w1" by auto
      then show ?thesis using token_wave_buffer[OF tw] by simp
    next
      case (Inr d')
      with eq True tw have "loop c s fs sids o1 d' w1 = Some y0" by simp
      from IH[OF this] token_wave_buffer[OF tw] show ?thesis by blast
    qed
  qed
qed

lemma token_loop_buffer:
  "token_loop cfg srv fns ids offset dumped w = Some (res, w') \<Longrightarrow> token_buffer fns w
     \<Longrightarrow> token_buffer fns w'"
  using token_loop_buffer_aux[of cfg srv fns ids offset dumped w "(res, w')"] by simp

lemma token_loop_continue:
  "offset < int (length ids) \<Longrightarrow>
   token_loop cfg srv fns ids offset dumped w =
     (case token_wave cfg srv fns ids (MAX_PARALLEL_TASKS cfg) offset w of
        ((futures, offset'), w') \<Rightarrow>
          (case join_wave futures dumped of
             Inl e \<Rightarrow> Some (Inl e, w')
           | Inr dumped' \<Rightarrow> token_loop cfg srv fns ids offset' dumped' w'))"
  by (subst token_loop.simps) simp

lemma token_loop_exit:
  "\<not> offset < int (length ids) \<Longrightarrow>
   token_loop cfg srv fns ids offset dumped w = Some (Inr (offset, dumped), w)"
  by (subst token_loop.simps) simp

lemma process_token_chunk_returns:
  "\<exists>n w'. process_token_chunk cfg srv ids fns w = (Inr n, w')"
  by (simp add: process_token_chunk_def write_token_records_total Let_def split: prod.splits)

lemma token_wave_returns:
  assumes rpc: "1 \<le> ROWS_PER_CHUNK cfg"
  shows "token_wave cfg srv fns ids m offset w = ((futs, offset'), w') \<Longrightarrow>
         (\<forall>f \<in> set futs. \<exists>n. f = Inr n) \<and> offset \<le> offset' \<and>
         (0 < m \<and> offset < int (length ids) \<longrightarrow> offset < offset')"
proof (induction m arbitrary: offset w futs offset' w')
  case 0
  then show ?case by simp
next
  case (Suc m)
  show ?case
  proof (cases "int (length ids) \<le> offset")
    case True
    with Suc.prems show ?thesis by simp
  next
    case False
    let ?batch = "py_slice ids offset (min (offset + ROWS_PER_CHUNK cfg) (int (length ids)))"
    obtain n w1 where pc: "process_token_chunk cfg srv ?batch fns
        (w\<lparr>submitted := submitted w @ [TokenChunk ?batch]\<rparr>) = (Inr n, w1)"
      using process_token_chunk_returns by blast
    obtain results o2 w2 where sw: "token_wave cfg srv fns ids m (offset + ROWS_PER_CHUNK cfg) w1
        = ((results, o2), w2)"
      by (metis prod.exhaust)
    from Suc.prems False pc sw have e: "futs = Inr n # results" "offset' = o2"
      by (auto simp: Let_def)
    from Suc.IH[OF sw] have "(\<forall>f \<in> set results. \<exists>n. f = Inr n)"
      and "offset + ROWS_PER_CHUNK cfg \<le> o2" by blast+
    then show ?thesis unfolding e using rpc by auto
  qed
qed

lemma token_loop_returns:
  assumes rpc: "1 \<le> ROWS_PER_CHUNK cfg" and mt: "1 \<le> MAX_PARALLEL_TASKS cfg"
  shows "\<exists>off d w'. token_loop cfg srv fns ids offset dumped w = Some (Inr (off, d), w')"
proof (induction "nat (int (length ids) - offset)" arbitrary: offset dumped w rule: less_induct)
  case less
  show ?case
  proof (cases "offset < int (length ids)")
    case False
    then show ?thesis by (simp add: token_loop_exit)
  next
    case True
    obtain futs o1 w1 where
      tw: "token_wave cfg srv fns ids (MAX_PARALLEL_TASKS cfg) offset w = ((futs, o1), w1)"
      by (metis prod.exhaust)
    from token_wave_returns[OF rpc tw] True mt
    have all: "\<forall>f \<in> set futs. \<exists>n. f = Inr n" and lt: "offset < o1" by auto
    from join_wave_returns[OF all, of dumped] obtain d' where jw: "join_wave futs dumped = Inr d'"
      by blast
    have step: "token_loop cfg srv fns ids offset dumped w = token_loop cfg srv fns ids o1 d' w1"
      by (simp add: token_loop_continue[OF True] tw jw)
    have "nat (int (length ids) - o1) < nat (int (length ids) - offset)"
      using lt True by simp
    from less.hyps[OF this, of d' w1] show ?thesis unfolding step .
  qed
qed

lemma scan_value_join_map:
  assumes "\<forall>k. map_of af k = scan_value u fns scan_rows k"
  shows "joined_row u fns af = published_row u fns scan_rows"
  by (rule ext) (simp add: joined_row_def published_row_def assms)

text \<open>
  C2.  For every token dump with a configured unique identifier column \<open>u\<close>, a chunk size
  and a parallelism of at least one, and a scan file with the header \<open>fns\<close> (distinct
  columns, among them \<open>skyflow_id\<close> and \<open>u\<close>) and rows of as many cells: whatever the
  service returns, and in whatever order, the token loop ends, the token buffer holds
  the header and full rows, the run ends with exit status 0, and the token file holds the
  header and, for each row of the buffer in turn, that row with the cell of column \<open>u\<close>
  replaced by the value the scan file holds for the row's identifier, or the row itself
  when the scan file does not hold its identifier.
\<close>

theorem token_join:
  assumes rpc: "1 \<le> ROWS_PER_CHUNK cfg" and mt: "1 \<le> MAX_PARALLEL_TASKS cfg"
      and u: "UNIQUE_ID_COLUMN cfg = Some u" "u \<noteq> []"
      and fns: "distinct fns" "''skyflow_id'' \<in> set fns" "u \<in> set fns"
      and artifact: "map_of (files w) (OUTPUT_CSV cfg) = Some (fns # scan_rows)"
                    "rectangular fns scan_rows"
      and path: "OUTPUT_TOKEN_CSV cfg = Some path"
  shows "\<exists>offset total_tokens_dumped w' body w''.
           token_loop cfg srv fns (map (\<lambda>row. column_value fns row ''skyflow_id'') scan_rows) 0 0
               ((print (TotalIdsToTokenize (length scan_rows)) w)\<lparr>temp_output_token := Some [fns]\<rparr>)
             = Some (Inr (offset, total_tokens_dumped), w') \<and>
           temp_output_token w' = Some (fns # body) \<and> rectangular fns body \<and>
           token_stage cfg srv fns w = Some (Exit 0, w'') \<and>
           map_of (files w'') path = Some (fns # map (published_row u fns scan_rows) body)"
proof -
  from token_loop_returns[OF rpc mt] obtain offset total_tokens_dumped w' where
    loop: "token_loop cfg srv fns (map (\<lambda>row. column_value fns row ''skyflow_id'') scan_rows) 0 0
                   ((print (TotalIdsToTokenize (length scan_rows)) w)
                      \<lparr>temp_output_token := Some [fns]\<rparr>)
                 = Some (Inr (offset, total_tokens_dumped), w')"
    by blast
  from read_ids_rows[OF u fns artifact(2), of "[]" "[]"] obtain af where
    r: "read_ids cfg (map (\<lambda>row. py_dict (zip fns row)) scan_rows) [] []
          = Inr (map (\<lambda>row. column_value fns row ''skyflow_id'') scan_rows, af)"
    and m0: "\<forall>k. map_of af k = (case scan_value u fns scan_rows k of
                                   None \<Rightarrow> map_of [] k | Some v \<Rightarrow> Some v)"
    by auto
  have m: "\<forall>k. map_of af k = scan_value u fns scan_rows k"
    using m0 by (simp split: option.splits)
  have b0: "token_buffer fns ((print (TotalIdsToTokenize (length scan_rows)) w)
                      \<lparr>temp_output_token := Some [fns]\<rparr>)"
    by (simp add: token_buffer_def rectangular_def)
  from token_loop_buffer[OF loop b0] obtain body where
    body: "temp_output_token w' = Some (fns # body)" "rectangular fns body"
    by (cases "temp_output_token w'"; cases "the (temp_output_token w')")
       (auto simp: token_buffer_def)
  from merge_write_rows[OF u fns body(2), of af] obtain merged_data where
    md: "merge_rows cfg af (map (\<lambda>row. py_dict (zip fns row)) body) = Inr merged_data"
        "\<forall>buf. write_rows fns merged_data buf = (None, buf @ map (joined_row u fns af) body)"
    by blast
  have j: "joined_row u fns af = published_row u fns scan_rows"
    using scan_value_join_map[OF m] .
  let ?w'' = "print TotalTimeTokenization
                (print (TokenizationCompleted total_tokens_dumped)
                   (w'\<lparr>files := AList.update path (fns # map (published_row u fns scan_rows) body)
                                   (files w'),
                       temp_output_token := None\<rparr>))"
  have p: "publish_tokens cfg fns af total_tokens_dumped w' = (Exit 0, ?w'')"
    by (simp add: publish_tokens_def DictReader_def contents_def body(1) md path j)
  have t: "token_stage cfg srv fns w = Some (Exit 0, ?w'')"
    using loop by (simp add: token_stage_def artifact(1) contents_def DictReader_def r p)
  have f: "map_of (files ?w'') path = Some (fns # map (published_row u fns scan_rows) body)"
    by (simp add: print_def update_conv')
  show ?thesis using loop body t f by blast
qed

lemma example_token_loop:
  "token_loop token_config token_server [''email'', ''skyflow_id''] [''a'', ''b'', ''c''] 0 0
     ((print (TotalIdsToTokenize 3) token_world)
        \<lparr>temp_output_token := Some [[''email'', ''skyflow_id'']]\<rparr>)
   = Some (Inr (4, 4), token_world_tokenized)"
  by (simp add: token_loop_continue token_loop_exit numeral_2_eq_2 token_config_def
      example_config_def process_token_chunk_def make_api_call_unfold token_server_def
      token_request_def attempt_result_def raise_for_status_def example_response_def
      succeeded_def ok_def get_records_def write_token_records_total scan_row_def cell_def
      contents_def print_def Let_def py_slice_def slice_index_def table_endpoint_def
      token_world_tokenized_def token_world_def initial_world_def)

theorem token_join_witness:
  "\<exists>w''. token_stage token_config token_server [''email'', ''skyflow_id''] token_world
           = Some (Exit 0, w'') \<and>
         map_of (files w'') ''tokens.csv''
           = Some [[''email'', ''skyflow_id''], [''Y'', ''b''], [''X'', ''a''],
                   [''tok-z'', ''z''], [''Z'', ''c'']]"
proof -
  let ?fns = "[''email'', ''skyflow_id'']"
  let ?rows = "[[''X'', ''a''], [''Y'', ''b''], [''Z'', ''c'']]"
  have u: "UNIQUE_ID_COLUMN token_config = Some ''email''" "''email'' \<noteq> []"
    and path: "OUTPUT_TOKEN_CSV token_config = Some ''tokens.csv''"
    and artifact: "map_of (files token_world) (OUTPUT_CSV token_config) = Some (?fns # ?rows)"
      "rectangular ?fns ?rows"
    and fns: "distinct ?fns" "''skyflow_id'' \<in> set ?fns" "''email'' \<in> set ?fns"
    by (simp_all add: token_config_def example_config_def token_world_def initial_world_def
        rectangular_def)
  have rpc: "1 \<le> ROWS_PER_CHUNK token_config" and mt: "1 \<le> MAX_PARALLEL_TASKS token_config"
    by (simp_all add: token_config_def example_config_def)
  have loop: "token_loop token_config token_server ?fns
      (map (\<lambda>row. column_value ?fns row ''skyflow_id'') ?rows) 0 0
      ((print (TotalIdsToTokenize (length ?rows)) token_world)\<lparr>temp_output_token := Some [?fns]\<rparr>)
     = Some (Inr (4, 4), token_world_tokenized)"
    using example_token_loop by (simp add: column_value_def numeral_3_eq_3)
  from token_join [OF rpc mt u fns artifact path, of token_server]
  obtain offset total_tokens_dumped w' body w'' where
    l: "token_loop token_config token_server ?fns
      (map (\<lambda>row. column_value ?fns row ''skyflow_id'') ?rows) 0 0
      ((print (TotalIdsToTokenize (length ?rows)) token_world)\<lparr>temp_output_token := Some [?fns]\<rparr>)
     = Some (Inr (offset, total_tokens_dumped), w')"
    and b': "temp_output_token w' = Some (?fns # body)"
    and t: "token_stage token_config token_server ?fns token_world = Some (Exit 0, w'')"
    and f: "map_of (files w'') ''tokens.csv''
              = Some (?fns # map (published_row ''email'' ?fns ?rows) body)"
    by blast
  from l loop have "w' = token_world_tokenized" by simp
  with b' have b: "temp_output_token token_world_tokenized = Some (?fns # body)" by simp
  from b have body: "body = [['''', ''b''], [''tok-a'', ''a''], [''tok-z'', ''z''], ['''', ''c'']]"
    by (simp add: token_world_tokenized_def)
  have "map (published_row ''email'' ?fns ?rows) body
          = [[''Y'', ''b''], [''X'', ''a''], [''tok-z'', ''z''], [''Z'', ''c'']]"
    unfolding body by (simp add: published_row_def scan_value_def column_value_def Let_def)
  with t f show ?thesis by auto
qed

end
